theory Spec2Isabelle
  imports Main "HOL-Library.Word"
begin

unbundle bit_operations_syntax

section \<open>parquet/types.h: encryption properties\<close>

text \<open>
  \<^verbatim>\<open>struct Encryption { enum type { AES_GCM_V1 = 0, AES_GCM_CTR_V1 = 1 }; };\<close>

  The members \<^verbatim>\<open>algorithm_\<close>, \<^verbatim>\<open>key_\<close> and \<^verbatim>\<open>aad_\<close> are the fields
  \<open>algorithm_m\<close>, \<open>key_m\<close> and \<open>aad_m\<close> of the record (a name cannot end in an
  underscore here). The member \<^verbatim>\<open>algorithm_\<close> of \<^verbatim>\<open>EncryptionProperties\<close> is left uninitialised by
  the defaulted constructor, and both sizing functions end in a fall-through \<^verbatim>\<open>return\<close>
  for a value that is neither enumerator. \<open>Encryption_unlisted\<close> stands for such a value,
  so that the fall-through branch of the source is a branch of the model.
\<close>

datatype Encryption = AES_GCM_V1 | AES_GCM_CTR_V1 | Encryption_unlisted

record EncryptionProperties =
  algorithm_m :: Encryption
  key_m :: string
  aad_m :: string

text \<open>
  \<^verbatim>\<open>uint32_t CalculateCipherSize(uint32_t plain_len, bool is_metadata = false) const\<close>.
  The operands are \<^verbatim>\<open>uint32_t\<close>: the additions wrap modulo \<open>2 ^ 32\<close>, as \<open>+\<close> on
  \<open>32 word\<close> does.
\<close>

definition CalculateCipherSize :: "EncryptionProperties \<Rightarrow> 32 word \<Rightarrow> bool \<Rightarrow> 32 word" where
  "CalculateCipherSize this plain_len is_metadata =
     (if is_metadata \<or> algorithm_m this = AES_GCM_V1 then plain_len + 28 + 4
      else if algorithm_m this = AES_GCM_CTR_V1 then plain_len + 16 + 4
      else plain_len)"

text \<open>
  \<^verbatim>\<open>uint32_t CalculatePlainSize(uint32_t cipher_len, bool is_metadata = false) const\<close>.
  The function has no error channel: its result is the \<^verbatim>\<open>uint32_t\<close> difference.
\<close>

definition CalculatePlainSize :: "EncryptionProperties \<Rightarrow> 32 word \<Rightarrow> bool \<Rightarrow> 32 word" where
  "CalculatePlainSize this cipher_len is_metadata =
     (if is_metadata \<or> algorithm_m this = AES_GCM_V1 then cipher_len - 28 - 4
      else if algorithm_m this = AES_GCM_CTR_V1 then cipher_len - 16 - 4
      else cipher_len)"

text \<open>
  The fixed per-frame overhead of the branch that the two functions select, in bytes.
  It is not a function of the source: it names the constants \<open>28 + 4\<close> and \<open>16 + 4\<close>
  of the two branches so that the theorems below can speak about them.
\<close>

definition frame_overhead :: "EncryptionProperties \<Rightarrow> bool \<Rightarrow> nat" where
  "frame_overhead this is_metadata =
     (if is_metadata \<or> algorithm_m this = AES_GCM_V1 then 32
      else if algorithm_m this = AES_GCM_CTR_V1 then 20
      else 0)"

text \<open>
  \<^verbatim>\<open>std::string::replace(pos, len, n, c)\<close>: the \<open>len\<close> characters from \<open>pos\<close> (fewer
  when the string ends earlier) are replaced by \<open>n\<close> copies of \<open>c\<close>; \<open>pos\<close> beyond
  the size throws \<^verbatim>\<open>std::out_of_range\<close>, which is \<open>None\<close> here.
\<close>

definition string_replace :: "string \<Rightarrow> nat \<Rightarrow> nat \<Rightarrow> nat \<Rightarrow> char \<Rightarrow> string option" where
  "string_replace s pos len n c =
     (if pos > length s then None
      else Some (take pos s @ replicate n c @ drop (pos + min len (length s - pos)) s))"

text \<open>
  \<^verbatim>\<open>~EncryptionProperties() { key_.replace(0, key_.length(), key_.length(), '\0'); }\<close>

  The destructor as a state transformer on the object, just before the members are
  released; \<open>None\<close> is an exception leaving the destructor.
\<close>

definition EncryptionProperties_dtor :: "EncryptionProperties \<Rightarrow> EncryptionProperties option" where
  "EncryptionProperties_dtor this =
     (case string_replace (key_m this) 0 (length (key_m this)) (length (key_m this)) (CHR 0x00) of
        None \<Rightarrow> None
      | Some k \<Rightarrow> Some (this\<lparr>key_m := k\<rparr>))"

section \<open>parquet/types.h: the legacy 96-bit timestamp\<close>

text \<open>
  \<^verbatim>\<open>constexpr int64_t kJulianToUnixEpochDays = INT64_C(2440588);\<close> and the chain
  \<^verbatim>\<open>kSecondsPerDay\<close>, \<^verbatim>\<open>kMillisecondsPerDay\<close>, \<^verbatim>\<open>kMicrosecondsPerDay\<close>,
  \<^verbatim>\<open>kNanosecondsPerDay\<close>. An \<^verbatim>\<open>int64_t\<close> is a \<open>64 word\<close>, read by \<open>sint\<close>.
\<close>

definition kJulianToUnixEpochDays :: "64 word" where
  "kJulianToUnixEpochDays = 2440588"

definition kSecondsPerDay :: "64 word" where
  "kSecondsPerDay = 60 * 60 * 24"

definition kMillisecondsPerDay :: "64 word" where
  "kMillisecondsPerDay = kSecondsPerDay * 1000"

definition kMicrosecondsPerDay :: "64 word" where
  "kMicrosecondsPerDay = kMillisecondsPerDay * 1000"

definition kNanosecondsPerDay :: "64 word" where
  "kNanosecondsPerDay = kMicrosecondsPerDay * 1000"

text \<open>
  \<^verbatim>\<open>struct Int96 { uint32_t value[3]; };\<close> The array has a fixed size of three, so the
  model has one field for each element: \<open>value_0\<close> is \<^verbatim>\<open>value[0]\<close>, and so on.
\<close>

record Int96 =
  value_0 :: "32 word"
  value_1 :: "32 word"
  value_2 :: "32 word"

text \<open>
  \<^verbatim>\<open>std::memcpy(&i96.value, &nanoseconds, sizeof(nanoseconds));\<close>

  The eight bytes of the \<^verbatim>\<open>int64_t\<close> are copied over the first eight bytes of the
  array, which are \<^verbatim>\<open>value[0]\<close> and \<^verbatim>\<open>value[1]\<close>; \<^verbatim>\<open>value[2]\<close> is not written. The
  byte order is the little-endian one of the Parquet format and of the hosts the library
  is built for: \<^verbatim>\<open>value[0]\<close> receives the low 32 bits. (On a big-endian host both
  \<^verbatim>\<open>memcpy\<close> calls would exchange the two words in the same way.)
\<close>

definition Int96SetNanoSeconds :: "Int96 \<Rightarrow> 64 word \<Rightarrow> Int96" where
  "Int96SetNanoSeconds i96 nanoseconds =
     i96\<lparr>value_0 := ucast nanoseconds, value_1 := ucast (drop_bit 32 nanoseconds)\<rparr>"

text \<open>
  \<^verbatim>\<open>int64_t days_since_epoch = i96.value[2] - kJulianToUnixEpochDays;\<close> converts the
  \<^verbatim>\<open>uint32_t\<close> to \<^verbatim>\<open>int64_t\<close> (zero extension, \<open>ucast\<close>) before subtracting.
  The product and the sum of the \<^verbatim>\<open>return\<close> are \<^verbatim>\<open>int64_t\<close> arithmetic; where they
  leave the 64-bit range the model wraps, as the compiled code does.
\<close>

definition Int96GetNanoSeconds :: "Int96 \<Rightarrow> 64 word" where
  "Int96GetNanoSeconds i96 =
     (let days_since_epoch = ucast (value_2 i96) - kJulianToUnixEpochDays;
          nanoseconds = push_bit 32 (ucast (value_1 i96)) OR ucast (value_0 i96)
      in days_since_epoch * kNanosecondsPerDay + nanoseconds)"

section \<open>arrow/compute/kernels/util-internal.cc: the types it works on\<close>

text \<open>
  Modelled from the spec: the \<^verbatim>\<open>Array\<close> abstraction of \<^verbatim>\<open>arrow/array.h\<close>, which is not
  among the sources. The spec gives it a logical length, an offset into its backing storage
  and a slicing operation that makes a view of a contiguous sub-range without copying.
  \<open>storage\<close> identifies the backing storage that a view shares with the array it was
  sliced from. \<^verbatim>\<open>Array\<close> and the \<^verbatim>\<open>ArrayData\<close> it wraps are one record here:
  \<^verbatim>\<open>make_array()\<close>, \<^verbatim>\<open>MakeArray\<close> and \<^verbatim>\<open>data()\<close> change nothing in it. The
  \<^verbatim>\<open>int64_t\<close> length and offset are integers.
\<close>

record Array =
  Array_length :: int
  Array_offset :: int
  storage :: nat

text \<open>
  Modelled from the spec: \<^verbatim>\<open>Array::Slice(start, length)\<close> of the missing \<^verbatim>\<open>arrow/array.h\<close>,
  "a new array view over a contiguous sub-range", "of exactly \<open>common_length\<close>
  elements" at the call of the dispatcher.
\<close>

definition Slice :: "Array \<Rightarrow> int \<Rightarrow> int \<Rightarrow> Array" where
  "Slice a start len = a\<lparr>Array_length := len, Array_offset := Array_offset a + start\<rparr>"

text \<open>
  Modelled from the spec: the \<^verbatim>\<open>ChunkedArray\<close> of the missing \<^verbatim>\<open>arrow/table.h\<close>, "an
  ordered sequence of single arrays whose individual lengths sum to the chunked array's
  total logical length", with \<^verbatim>\<open>num_chunks()\<close>, \<^verbatim>\<open>chunk(i)\<close>, \<^verbatim>\<open>chunks()\<close>,
  \<^verbatim>\<open>length()\<close> and a constructor from an ordered list of arrays. \<^verbatim>\<open>length()\<close> is
  the sum of the lengths of the chunks.
\<close>

datatype ChunkedArray = ChunkedArray (chunks: "Array list")

definition num_chunks :: "ChunkedArray \<Rightarrow> nat" where
  "num_chunks array = length (chunks array)"

definition chunk :: "ChunkedArray \<Rightarrow> nat \<Rightarrow> Array" where
  "chunk array i = chunks array ! i"

definition ChunkedArray_length :: "ChunkedArray \<Rightarrow> int" where
  "ChunkedArray_length array = sum_list (map Array_length (chunks array))"

text \<open>
  Modelled from the spec: the \<^verbatim>\<open>Datum\<close> of the missing \<^verbatim>\<open>arrow/compute/kernel.h\<close>, a
  tagged union. The dispatcher tests for the kinds \<^verbatim>\<open>Datum::ARRAY\<close> and
  \<^verbatim>\<open>Datum::CHUNKED_ARRAY\<close> and has an \<^verbatim>\<open>else\<close> branch for every other kind;
  \<open>NONE\<close>, the kind of the default-constructed \<^verbatim>\<open>Datum()\<close>, stands for all of them.
\<close>

datatype Datum = NONE | ARRAY Array | CHUNKED_ARRAY ChunkedArray

text \<open>
  Modelled from the spec: the \<^verbatim>\<open>Status\<close> of the missing \<^verbatim>\<open>arrow/status.h\<close>. The
  dispatcher makes \<^verbatim>\<open>Status::OK()\<close> and \<^verbatim>\<open>Status::Invalid(msg)\<close> (the spec's
  InvalidInput); a kernel may return these or a status of any other code, for which
  \<open>UnknownError\<close> stands.
\<close>

datatype Status = OK | Invalid string | UnknownError string

text \<open>
  What ends a call other than a returned \<^verbatim>\<open>Status\<close>:
  \<^item> \<open>OutOfBounds\<close>: \<^verbatim>\<open>operator[]\<close> of a \<^verbatim>\<open>std::vector\<close> with an index that is not below
    its size (undefined behaviour in the source);
  \<^item> \<open>CheckFailed\<close>: a failed \<^verbatim>\<open>DCHECK\<close>, \<^verbatim>\<open>DCHECK_EQ\<close>. Modelled from the spec: the
    macros of the missing \<^verbatim>\<open>arrow/util/logging.h\<close>, an internal consistency check that
    "fails loudly (assertion-style)";
  \<^item> \<open>BadAccess\<close>: \<^verbatim>\<open>Datum::array()\<close> on a datum that holds no array.
\<close>

datatype fault = OutOfBounds | CheckFailed | BadAccess

text \<open>
  Modelled from the spec: the accessor \<^verbatim>\<open>Datum::array()\<close> of the missing
  \<^verbatim>\<open>arrow/compute/kernel.h\<close>. A datum is a tagged union; the accessor gives the array of a
  datum of kind \<^verbatim>\<open>ARRAY\<close>, and a datum of another kind has none to give.
\<close>

definition Datum_array :: "Datum \<Rightarrow> fault + Array" where
  "Datum_array d = (case d of ARRAY a \<Rightarrow> Inr a | _ \<Rightarrow> Inl BadAccess)"

text \<open>
  \<^verbatim>\<open>kernel->Call(ctx, value, &output)\<close> and \<^verbatim>\<open>kernel->Call(ctx, left, right, &output)\<close>.
  A call may change the \<^verbatim>\<open>FunctionContext\<close> behind \<^verbatim>\<open>ctx\<close> (and the kernel object);
  that state has the type \<open>'c\<close> and is threaded through the calls. A call returns the new
  state, the \<^verbatim>\<open>Status\<close>, and what it left in the default-constructed \<^verbatim>\<open>output\<close>.
  The parameters \<^verbatim>\<open>kernel\<close> and \<^verbatim>\<open>value\<close> of the source are \<open>kernel'\<close> and \<open>val\<close>
  below, the plain names being taken in HOL.
\<close>

type_synonym 'c UnaryKernel = "'c \<Rightarrow> Datum \<Rightarrow> 'c \<times> Status \<times> Datum"

type_synonym 'c BinaryKernel = "'c \<Rightarrow> Datum \<Rightarrow> Datum \<Rightarrow> 'c \<times> Status \<times> Datum"

section \<open>InvokeUnaryArrayKernel\<close>

text \<open>
  The \<^verbatim>\<open>for\<close> loop over the chunks. \<^verbatim>\<open>RETURN_NOT_OK\<close> returns the status of the call
  when it is not \<^verbatim>\<open>OK\<close>; the outputs of the earlier calls are then already in
  \<^verbatim>\<open>*outputs\<close>. The loop condition keeps \<open>i\<close> below the number of chunks at
  \<^verbatim>\<open>array.chunk(i)\<close>.
\<close>

function unary_chunks_loop ::
  "'c UnaryKernel \<Rightarrow> ChunkedArray \<Rightarrow> nat \<Rightarrow> 'c \<Rightarrow> Datum list \<Rightarrow> 'c \<times> Status \<times> Datum list"
where
  "unary_chunks_loop kernel' array i ctx outputs =
     (if i < num_chunks array then
        (case kernel' ctx (ARRAY (chunk array i)) of (ctx', status, output) \<Rightarrow>
           if status \<noteq> OK then (ctx', status, outputs)
           else unary_chunks_loop kernel' array (i + 1) ctx' (outputs @ [output]))
      else (ctx, OK, outputs))"
  by pat_completeness auto
termination
  by (relation "measure (\<lambda>(kernel', array, i, ctx, outputs). num_chunks array - i)") auto

definition InvokeUnaryArrayKernel ::
  "'c \<Rightarrow> 'c UnaryKernel \<Rightarrow> Datum \<Rightarrow> Datum list \<Rightarrow> 'c \<times> Status \<times> Datum list"
where
  "InvokeUnaryArrayKernel ctx kernel' val outputs =
     (case val of
        ARRAY a \<Rightarrow>
          (case kernel' ctx val of (ctx', status, output) \<Rightarrow>
             if status \<noteq> OK then (ctx', status, outputs)
             else (ctx', OK, outputs @ [output]))
      | CHUNKED_ARRAY array \<Rightarrow> unary_chunks_loop kernel' array 0 ctx outputs
      | _ \<Rightarrow> (ctx, Invalid ''Input Datum was not array-like'', outputs))"

section \<open>InvokeBinaryArrayKernel\<close>

text \<open>
  The local variables of the alignment loop. The chunk indices are \<^verbatim>\<open>int\<close> in the source,
  start at 0 and are only incremented: natural numbers here. The start indices and
  \<^verbatim>\<open>elements_compared\<close> are \<^verbatim>\<open>int64_t\<close>: integers here.
\<close>

record cursor =
  left_chunk_idx :: nat
  left_start_idx :: int
  right_chunk_idx :: nat
  right_start_idx :: int
  elements_compared :: int

text \<open>Their values before the loop: all are initialised to 0.\<close>

definition cursor_start :: cursor where
  "cursor_start = \<lparr>left_chunk_idx = 0, left_start_idx = 0, right_chunk_idx = 0,
                    right_start_idx = 0, elements_compared = 0\<rparr>"

text \<open>
  \<^verbatim>\<open>std::min(left_array->length() - left_start_idx, right_array->length() - right_start_idx)\<close>
  for the current chunks \<^verbatim>\<open>left_arrays[left_chunk_idx]\<close> and
  \<^verbatim>\<open>right_arrays[right_chunk_idx]\<close>.
\<close>

definition common_length :: "Array list \<Rightarrow> Array list \<Rightarrow> cursor \<Rightarrow> int" where
  "common_length left_arrays right_arrays c =
     min (Array_length (left_arrays ! left_chunk_idx c) - left_start_idx c)
         (Array_length (right_arrays ! right_chunk_idx c) - right_start_idx c)"

text \<open>
  The end of the loop body: \<^verbatim>\<open>elements_compared += common_length\<close>, then each side on its
  own goes to its next chunk when the current one is exhausted, and moves its start index
  otherwise.
\<close>

definition advance :: "Array list \<Rightarrow> Array list \<Rightarrow> cursor \<Rightarrow> cursor" where
  "advance left_arrays right_arrays c =
     (let left_array = left_arrays ! left_chunk_idx c;
          right_array = right_arrays ! right_chunk_idx c;
          n = common_length left_arrays right_arrays c;
          left_done = (left_start_idx c + n = Array_length left_array);
          right_done = (right_start_idx c + n = Array_length right_array)
      in \<lparr>left_chunk_idx = (if left_done then left_chunk_idx c + 1 else left_chunk_idx c),
          left_start_idx = (if left_done then 0 else left_start_idx c + n),
          right_chunk_idx = (if right_done then right_chunk_idx c + 1 else right_chunk_idx c),
          right_start_idx = (if right_done then 0 else right_start_idx c + n),
          elements_compared = elements_compared c + n\<rparr>)"

text \<open>
  The \<^verbatim>\<open>while (elements_compared < left_length)\<close> loop. Reading
  \<^verbatim>\<open>left_arrays[left_chunk_idx]\<close> or \<^verbatim>\<open>right_arrays[right_chunk_idx]\<close> beyond the vector
  is the outcome \<open>OutOfBounds\<close>. A call of the kernel that does not return \<^verbatim>\<open>OK\<close> ends
  the loop with that status (\<^verbatim>\<open>RETURN_NOT_OK\<close>).
\<close>

function binary_loop ::
  "'c BinaryKernel \<Rightarrow> Array list \<Rightarrow> Array list \<Rightarrow> int \<Rightarrow> cursor \<Rightarrow> 'c \<Rightarrow> Datum list
     \<Rightarrow> fault + ('c \<times> Status \<times> Datum list)"
where
  "binary_loop kernel' left_arrays right_arrays left_length c ctx outputs =
     (if elements_compared c < left_length then
        if left_chunk_idx c < length left_arrays \<and> right_chunk_idx c < length right_arrays then
          (let left_array = left_arrays ! left_chunk_idx c;
               right_array = right_arrays ! right_chunk_idx c;
               n = common_length left_arrays right_arrays c;
               left_op = Slice left_array (left_start_idx c) n;
               right_op = Slice right_array (right_start_idx c) n
           in case kernel' ctx (ARRAY left_op) (ARRAY right_op) of (ctx', status, output) \<Rightarrow>
                if status \<noteq> OK then Inr (ctx', status, outputs)
                else binary_loop kernel' left_arrays right_arrays left_length
                       (advance left_arrays right_arrays c) ctx' (outputs @ [output]))
        else Inl OutOfBounds
      else Inr (ctx, OK, outputs))"
  by pat_completeness auto
termination
proof (relation "measure (\<lambda>(kernel', left_arrays, right_arrays, left_length, c, ctx, outputs).
         (length left_arrays - left_chunk_idx c) + (length right_arrays - right_chunk_idx c))")
  show "wf (measure (\<lambda>(kernel' :: 'c BinaryKernel, left_arrays, right_arrays, left_length :: int, c,
         ctx :: 'c, outputs :: Datum list).
         (length left_arrays - left_chunk_idx c) + (length right_arrays - right_chunk_idx c)))"
    by simp
next
  fix kernel' :: "'c BinaryKernel" and left_arrays right_arrays :: "Array list"
    and left_length :: int and c :: cursor and ctx :: 'c and outputs :: "Datum list"
    and left_array right_array n left_op right_op x xa y xb ya
  assume "left_chunk_idx c < length left_arrays \<and> right_chunk_idx c < length right_arrays"
  then show "((kernel', left_arrays, right_arrays, left_length, advance left_arrays right_arrays c,
               xa, outputs @ [ya]),
              (kernel', left_arrays, right_arrays, left_length, c, ctx, outputs))
        \<in> measure (\<lambda>(kernel', left_arrays, right_arrays, left_length, c, ctx, outputs).
         (length left_arrays - left_chunk_idx c) + (length right_arrays - right_chunk_idx c))"
    by (auto simp add: advance_def common_length_def Let_def min_def)
qed

text \<open>
  The first half of the function, once for \<^verbatim>\<open>left\<close> and once for \<^verbatim>\<open>right\<close>: the total
  length and the vector of arrays of a datum of kind \<^verbatim>\<open>ARRAY\<close> (its length, and the one
  array) or \<^verbatim>\<open>CHUNKED_ARRAY\<close> (its \<^verbatim>\<open>length()\<close> and its \<^verbatim>\<open>chunks()\<close>); \<open>None\<close> is
  the \<^verbatim>\<open>else\<close> branch that returns \<^verbatim>\<open>Status::Invalid\<close>.
\<close>

definition length_and_arrays :: "Datum \<Rightarrow> (int \<times> Array list) option" where
  "length_and_arrays d =
     (case d of
        ARRAY a \<Rightarrow> Some (Array_length a, [a])
      | CHUNKED_ARRAY array \<Rightarrow> Some (ChunkedArray_length array, chunks array)
      | _ \<Rightarrow> None)"

text \<open>
  \<^verbatim>\<open>Status InvokeBinaryArrayKernel(ctx, kernel, left, right, std::vector<Datum>* outputs)\<close>.
  The result has the state after the call, the returned status and the contents of
  \<^verbatim>\<open>*outputs\<close> after the call.
\<close>

definition InvokeBinaryArrayKernel ::
  "'c \<Rightarrow> 'c BinaryKernel \<Rightarrow> Datum \<Rightarrow> Datum \<Rightarrow> Datum list
     \<Rightarrow> fault + ('c \<times> Status \<times> Datum list)"
where
  "InvokeBinaryArrayKernel ctx kernel' left right outputs =
     (case length_and_arrays left of
        None \<Rightarrow> Inr (ctx, Invalid ''Left input Datum was not array-like'', outputs)
      | Some (left_length, left_arrays) \<Rightarrow>
          (case length_and_arrays right of
             None \<Rightarrow> Inr (ctx, Invalid ''Right input Datum was not array-like'', outputs)
           | Some (right_length, right_arrays) \<Rightarrow>
               if right_length \<noteq> left_length
               then Inr (ctx, Invalid ''Right and left have different lengths'', outputs)
               else binary_loop kernel' left_arrays right_arrays left_length cursor_start
                      ctx outputs))"

section \<open>WrapDatumsLike and the datum form of InvokeBinaryArrayKernel\<close>

text \<open>
  The loop of the \<^verbatim>\<open>CHUNKED_ARRAY\<close> branch of \<^verbatim>\<open>WrapDatumsLike\<close>:
  \<^verbatim>\<open>DCHECK_EQ(Datum::ARRAY, datum.kind()); arrays.emplace_back(MakeArray(datum.array()));\<close>
  for each datum in order.
\<close>

fun datums_arrays :: "Datum list \<Rightarrow> fault + Array list" where
  "datums_arrays [] = Inr []"
| "datums_arrays (datum # rest) =
     (case datum of
        ARRAY a \<Rightarrow>
          (case datums_arrays rest of
             Inl f \<Rightarrow> Inl f
           | Inr arrays \<Rightarrow> Inr (a # arrays))
      | _ \<Rightarrow> Inl CheckFailed)"

text \<open>
  \<^verbatim>\<open>Datum WrapDatumsLike(const Datum& value, const std::vector<Datum>& datums)\<close>.
  In the \<^verbatim>\<open>ARRAY\<close> branch \<^verbatim>\<open>DCHECK_EQ(1, datums.size())\<close> comes before
  \<^verbatim>\<open>datums[0].array()\<close>; the last branch is \<^verbatim>\<open>DCHECK(false)\<close>. The checks are
  enabled in the model: a failed check ends the call, and the code behind it is not run.
\<close>

definition WrapDatumsLike :: "Datum \<Rightarrow> Datum list \<Rightarrow> fault + Datum" where
  "WrapDatumsLike val datums =
     (case val of
        ARRAY v \<Rightarrow>
          if length datums \<noteq> 1 then Inl CheckFailed
          else (case Datum_array (datums ! 0) of
                  Inl f \<Rightarrow> Inl f
                | Inr a \<Rightarrow> Inr (ARRAY a))
      | CHUNKED_ARRAY v \<Rightarrow>
          (case datums_arrays datums of
             Inl f \<Rightarrow> Inl f
           | Inr arrays \<Rightarrow> Inr (CHUNKED_ARRAY (ChunkedArray arrays)))
      | _ \<Rightarrow> Inl CheckFailed)"

text \<open>
  \<^verbatim>\<open>Status InvokeBinaryArrayKernel(ctx, kernel, left, right, Datum* output)\<close>: the vector
  form on an empty \<^verbatim>\<open>result\<close>, then \<^verbatim>\<open>*output = WrapDatumsLike(left, result)\<close>. The last
  argument is what \<^verbatim>\<open>*output\<close> holds before the call; it is still there when the status is
  not \<^verbatim>\<open>OK\<close>.
\<close>

definition InvokeBinaryArrayKernel_datum ::
  "'c \<Rightarrow> 'c BinaryKernel \<Rightarrow> Datum \<Rightarrow> Datum \<Rightarrow> Datum \<Rightarrow> fault + ('c \<times> Status \<times> Datum)"
where
  "InvokeBinaryArrayKernel_datum ctx kernel' left right output =
     (case InvokeBinaryArrayKernel ctx kernel' left right [] of
        Inl f \<Rightarrow> Inl f
      | Inr (ctx', status, result) \<Rightarrow>
          if status \<noteq> OK then Inr (ctx', status, output)
          else (case WrapDatumsLike left result of
                  Inl f \<Rightarrow> Inl f
                | Inr d \<Rightarrow> Inr (ctx', OK, d)))"

section \<open>Notions for the theorems\<close>

text \<open>
  A kernel that also records the pairs of operands it is called on, in order of the calls:
  the record is a second component of the state that the calls thread. The dispatcher is
  not changed by it.
\<close>

definition traced :: "'c BinaryKernel \<Rightarrow> ('c \<times> (Datum \<times> Datum) list) BinaryKernel" where
  "traced kernel' = (\<lambda>(ctx, calls) l r.
     case kernel' ctx l r of (ctx', status, output) \<Rightarrow> ((ctx', calls @ [(l, r)]), status, output))"

text \<open>A datum is array-like when it is a single array or a chunked array.\<close>

definition array_like :: "Datum \<Rightarrow> bool" where
  "array_like d = (case d of ARRAY a \<Rightarrow> True | CHUNKED_ARRAY array \<Rightarrow> True | _ \<Rightarrow> False)"

text \<open>The arrays of a datum (one for a single array) and its total logical length.\<close>

definition arrays_of :: "Datum \<Rightarrow> Array list" where
  "arrays_of d = (case d of ARRAY a \<Rightarrow> [a] | CHUNKED_ARRAY array \<Rightarrow> chunks array | _ \<Rightarrow> [])"

definition total_length :: "Datum \<Rightarrow> int" where
  "total_length d = sum_list (map Array_length (arrays_of d))"

text \<open>No array of the list, and no array of the datum, has a negative length.\<close>

definition nonneg :: "Array list \<Rightarrow> bool" where
  "nonneg arrays = list_all (\<lambda>a. 0 \<le> Array_length a) arrays"

definition lengths_nonneg :: "Datum \<Rightarrow> bool" where
  "lengths_nonneg d = nonneg (arrays_of d)"

text \<open>
  \<open>slice_within a whole\<close>: the array \<open>a\<close> is a slice of the array \<open>whole\<close> and lies
  inside it.
\<close>

definition slice_within :: "Array \<Rightarrow> Array \<Rightarrow> bool" where
  "slice_within a whole =
     (a = Slice whole (Array_offset a - Array_offset whole) (Array_length a)
      \<and> 0 \<le> Array_offset a - Array_offset whole
      \<and> 0 \<le> Array_length a
      \<and> (Array_offset a - Array_offset whole) + Array_length a \<le> Array_length whole)"

text \<open>
  A call of the kernel on a pair of slices of the same length, the first of a chunk of the
  left arrays and the second of a chunk of the right arrays; and that length.
\<close>

definition aligned_call :: "Array list \<Rightarrow> Array list \<Rightarrow> Datum \<times> Datum \<Rightarrow> bool" where
  "aligned_call left_arrays right_arrays call =
     (case call of
        (ARRAY a, ARRAY b) \<Rightarrow>
          Array_length a = Array_length b
          \<and> list_ex (slice_within a) left_arrays \<and> list_ex (slice_within b) right_arrays
      | _ \<Rightarrow> False)"

definition call_length :: "Datum \<times> Datum \<Rightarrow> int" where
  "call_length call = (case call of (ARRAY a, _) \<Rightarrow> Array_length a | _ \<Rightarrow> 0)"

text \<open>The cursor after \<open>k\<close> turns of the loop body.\<close>

fun cursor_after :: "Array list \<Rightarrow> Array list \<Rightarrow> nat \<Rightarrow> cursor" where
  "cursor_after left_arrays right_arrays 0 = cursor_start"
| "cursor_after left_arrays right_arrays (Suc k) =
     advance left_arrays right_arrays (cursor_after left_arrays right_arrays k)"

text \<open>The chunks that the two chunk indices have not passed yet.\<close>

definition remaining_chunks :: "Array list \<Rightarrow> Array list \<Rightarrow> cursor \<Rightarrow> nat" where
  "remaining_chunks left_arrays right_arrays c =
     (length left_arrays - left_chunk_idx c) + (length right_arrays - right_chunk_idx c)"

text \<open>
  The operands of the call that the loop body makes at a cursor: \<^verbatim>\<open>left_op\<close> and
  \<^verbatim>\<open>right_op\<close> of the source, the slices of \<open>common_length\<close> elements of the two
  current chunks from the two start indices; and the pair of datums that the kernel is
  called on.
\<close>

definition left_op :: "Array list \<Rightarrow> Array list \<Rightarrow> cursor \<Rightarrow> Array" where
  "left_op left_arrays right_arrays c =
     Slice (left_arrays ! left_chunk_idx c) (left_start_idx c)
       (common_length left_arrays right_arrays c)"

definition right_op :: "Array list \<Rightarrow> Array list \<Rightarrow> cursor \<Rightarrow> Array" where
  "right_op left_arrays right_arrays c =
     Slice (right_arrays ! right_chunk_idx c) (right_start_idx c)
       (common_length left_arrays right_arrays c)"

definition call_at :: "Array list \<Rightarrow> Array list \<Rightarrow> cursor \<Rightarrow> Datum \<times> Datum" where
  "call_at left_arrays right_arrays c =
     (ARRAY (left_op left_arrays right_arrays c), ARRAY (right_op left_arrays right_arrays c))"

text \<open>
  The invariant of the alignment loop: the chunk indices are at most the numbers of chunks,
  the start indices lie inside the current chunks (and are 0 behind the last chunk), and on
  each side the elements compared so far and the elements from the cursor on add up to
  \<open>left_length\<close>.
\<close>

definition loop_inv :: "Array list \<Rightarrow> Array list \<Rightarrow> int \<Rightarrow> cursor \<Rightarrow> bool" where
  "loop_inv left_arrays right_arrays left_length c =
     (left_chunk_idx c \<le> length left_arrays \<and> right_chunk_idx c \<le> length right_arrays
      \<and> 0 \<le> left_start_idx c \<and> 0 \<le> right_start_idx c
      \<and> (if left_chunk_idx c < length left_arrays
          then left_start_idx c \<le> Array_length (left_arrays ! left_chunk_idx c)
          else left_start_idx c = 0)
      \<and> (if right_chunk_idx c < length right_arrays
          then right_start_idx c \<le> Array_length (right_arrays ! right_chunk_idx c)
          else right_start_idx c = 0)
      \<and> elements_compared c
            + (sum_list (map Array_length (drop (left_chunk_idx c) left_arrays))
               - left_start_idx c) = left_length
      \<and> elements_compared c
            + (sum_list (map Array_length (drop (right_chunk_idx c) right_arrays))
               - right_start_idx c) = left_length)"

text \<open>A status is \<^verbatim>\<open>Invalid\<close>; a call of the dispatcher returned an \<^verbatim>\<open>Invalid\<close> status.\<close>

definition is_Invalid :: "Status \<Rightarrow> bool" where
  "is_Invalid s = (case s of Invalid msg \<Rightarrow> True | _ \<Rightarrow> False)"

definition returns_Invalid :: "fault + ('c \<times> Status \<times> Datum list) \<Rightarrow> bool" where
  "returns_Invalid res = (case res of Inr (ctx, status, outputs) \<Rightarrow> is_Invalid status | Inl f \<Rightarrow> False)"

section \<open>Kernels for the examples\<close>

text \<open>
  A binary kernel that returns its left operand (so its output has the length of its
  operands), a binary kernel that rejects every pair of operands with an \<^verbatim>\<open>Invalid\<close>
  status, and a unary kernel that returns its operand.
\<close>

definition left_operand_kernel :: "'c BinaryKernel" where
  "left_operand_kernel ctx l r = (ctx, OK, l)"

definition rejecting_kernel :: "'c BinaryKernel" where
  "rejecting_kernel ctx l r = (ctx, Invalid ''operands not supported'', NONE)"

definition same_datum_kernel :: "'c UnaryKernel" where
  "same_datum_kernel ctx v = (ctx, OK, v)"

section \<open>Encryption frame sizing: theorems\<close>

lemma frame_overhead_cases:
  "frame_overhead this is_metadata = 32 \<or> frame_overhead this is_metadata = 20
     \<or> frame_overhead this is_metadata = 0"
  by (simp add: frame_overhead_def)

lemma CalculatePlainSize_overhead:
  "CalculatePlainSize this cipher_len is_metadata
     = cipher_len - of_nat (frame_overhead this is_metadata)"
  by (simp add: CalculatePlainSize_def frame_overhead_def)

lemma unat_sub_wrap32:
  fixes c :: "32 word"
  assumes "unat c < n" and "n \<le> 32"
  shows "unat (c - of_nat n) = unat c + 2 ^ 32 - n"
proof -
  have n: "unat (of_nat n :: 32 word) = n"
    using assms(2) by (simp add: unat_of_nat)
  have "\<not> of_nat n \<le> c"
    using assms(1) n by (simp add: word_le_nat_alt)
  then show ?thesis
    using n assms(1) by (simp add: unat_sub_if')
qed

text \<open>
  Claim C2. Whenever \<open>cipher_len\<close> is strictly smaller than the fixed overhead of the
  selected branch (32 bytes when \<open>is_metadata\<close> holds or the algorithm is
  \<open>AES_GCM_V1\<close>, 20 bytes when the algorithm is \<open>AES_GCM_CTR_V1\<close> and
  \<open>is_metadata\<close> does not hold), \<open>CalculatePlainSize\<close> subtracts without a guard: the
  value it returns is \<open>cipher_len - overhead\<close> wrapped modulo \<open>2 ^ 32\<close>, that is
  \<open>cipher_len + 2 ^ 32 - overhead\<close> read as an unsigned number. No error is signalled:
  the function returns a plain \<^verbatim>\<open>uint32_t\<close>.
\<close>

theorem CalculatePlainSize_underflow_wraps:
  assumes "unat cipher_len < frame_overhead this is_metadata"
  shows "(is_metadata \<or> algorithm_m this = AES_GCM_V1 \<longrightarrow>
            frame_overhead this is_metadata = 32
            \<and> CalculatePlainSize this cipher_len is_metadata = cipher_len - 32
            \<and> unat (CalculatePlainSize this cipher_len is_metadata)
                = unat cipher_len + 2 ^ 32 - 32)
       \<and> (\<not> is_metadata \<and> algorithm_m this = AES_GCM_CTR_V1 \<longrightarrow>
            frame_overhead this is_metadata = 20
            \<and> CalculatePlainSize this cipher_len is_metadata = cipher_len - 20
            \<and> unat (CalculatePlainSize this cipher_len is_metadata)
                = unat cipher_len + 2 ^ 32 - 20)"
proof (intro conjI impI)
  assume b: "is_metadata \<or> algorithm_m this = AES_GCM_V1"
  then show o: "frame_overhead this is_metadata = 32"
    by (auto simp add: frame_overhead_def)
  show "CalculatePlainSize this cipher_len is_metadata = cipher_len - 32"
    using b by (auto simp add: CalculatePlainSize_def)
  show "unat (CalculatePlainSize this cipher_len is_metadata) = unat cipher_len + 2 ^ 32 - 32"
    using unat_sub_wrap32 [of cipher_len 32] assms o
    by (simp add: CalculatePlainSize_overhead)
next
  assume b: "\<not> is_metadata \<and> algorithm_m this = AES_GCM_CTR_V1"
  then show o: "frame_overhead this is_metadata = 20"
    by (simp add: frame_overhead_def)
  show "CalculatePlainSize this cipher_len is_metadata = cipher_len - 20"
    using b by (simp add: CalculatePlainSize_def)
  show "unat (CalculatePlainSize this cipher_len is_metadata) = unat cipher_len + 2 ^ 32 - 20"
    using unat_sub_wrap32 [of cipher_len 20] assms o
    by (simp add: CalculatePlainSize_overhead)
qed

theorem CalculatePlainSize_underflow_wraps_witness:
  "unat (5 :: 32 word)
     < frame_overhead \<lparr>algorithm_m = AES_GCM_CTR_V1, key_m = ''k'', aad_m = ''''\<rparr> False
   \<and> CalculatePlainSize \<lparr>algorithm_m = AES_GCM_CTR_V1, key_m = ''k'', aad_m = ''''\<rparr> 5 False
       = 4294967281
   \<and> unat (31 :: 32 word)
     < frame_overhead \<lparr>algorithm_m = AES_GCM_CTR_V1, key_m = ''k'', aad_m = ''''\<rparr> True
   \<and> CalculatePlainSize \<lparr>algorithm_m = AES_GCM_CTR_V1, key_m = ''k'', aad_m = ''''\<rparr> 31 True
       = 4294967295"
proof -
  have h1: "unat (5 :: 32 word)
     < frame_overhead \<lparr>algorithm_m = AES_GCM_CTR_V1, key_m = ''k'', aad_m = ''''\<rparr> False"
    by (simp add: frame_overhead_def)
  have h2: "unat (31 :: 32 word)
     < frame_overhead \<lparr>algorithm_m = AES_GCM_CTR_V1, key_m = ''k'', aad_m = ''''\<rparr> True"
    by (simp add: frame_overhead_def)
  have r1: "CalculatePlainSize \<lparr>algorithm_m = AES_GCM_CTR_V1, key_m = ''k'', aad_m = ''''\<rparr> 5 False
       = 4294967281"
    using CalculatePlainSize_underflow_wraps [OF h1] by simp
  have r2: "CalculatePlainSize \<lparr>algorithm_m = AES_GCM_CTR_V1, key_m = ''k'', aad_m = ''''\<rparr> 31 True
       = 4294967295"
    using CalculatePlainSize_underflow_wraps [OF h2] by simp
  show ?thesis using h1 h2 r1 r2 by blast
qed

text \<open>
  Claim C3. For every \<^verbatim>\<open>uint32_t\<close> \<open>plain_len\<close>, every algorithm and both values of
  \<open>is_metadata\<close>, \<open>CalculatePlainSize (CalculateCipherSize plain_len is_metadata)
  is_metadata\<close> is \<open>plain_len\<close>, the arithmetic being modulo \<open>2 ^ 32\<close>. The statement
  has no restriction on the object: it covers \<open>AES_GCM_V1\<close> and \<open>AES_GCM_CTR_V1\<close>,
  and the fall-through branch as well.
\<close>

theorem CalculatePlainSize_CalculateCipherSize:
  "CalculatePlainSize this (CalculateCipherSize this plain_len is_metadata) is_metadata
     = plain_len"
  by (simp add: CalculatePlainSize_def CalculateCipherSize_def)

text \<open>
  Claim C4. For every \<^verbatim>\<open>uint32_t\<close> \<open>plain_len\<close>, \<open>CalculateCipherSize\<close> returns
  \<open>plain_len + 28 + 4\<close> when \<open>is_metadata\<close> holds or the algorithm is \<open>AES_GCM_V1\<close>;
  \<open>plain_len + 16 + 4\<close> when the algorithm is \<open>AES_GCM_CTR_V1\<close> and \<open>is_metadata\<close>
  does not hold; and \<open>plain_len\<close> unchanged otherwise. The sums are \<^verbatim>\<open>uint32_t\<close>
  sums: as numbers they are \<open>(plain_len + 32) mod 2 ^ 32\<close> and
  \<open>(plain_len + 20) mod 2 ^ 32\<close>.
\<close>

theorem CalculateCipherSize_branches:
  "(is_metadata \<or> algorithm_m this = AES_GCM_V1 \<longrightarrow>
       CalculateCipherSize this plain_len is_metadata = plain_len + 28 + 4
       \<and> unat (CalculateCipherSize this plain_len is_metadata)
           = (unat plain_len + 32) mod 2 ^ 32)
   \<and> (\<not> is_metadata \<and> algorithm_m this = AES_GCM_CTR_V1 \<longrightarrow>
       CalculateCipherSize this plain_len is_metadata = plain_len + 16 + 4
       \<and> unat (CalculateCipherSize this plain_len is_metadata)
           = (unat plain_len + 20) mod 2 ^ 32)
   \<and> (\<not> is_metadata \<and> algorithm_m this \<noteq> AES_GCM_V1 \<and> algorithm_m this \<noteq> AES_GCM_CTR_V1 \<longrightarrow>
       CalculateCipherSize this plain_len is_metadata = plain_len)"
proof (intro conjI impI)
  assume "is_metadata \<or> algorithm_m this = AES_GCM_V1"
  then have e: "CalculateCipherSize this plain_len is_metadata = plain_len + 32"
    by (auto simp add: CalculateCipherSize_def)
  then show "CalculateCipherSize this plain_len is_metadata = plain_len + 28 + 4"
    by simp
  show "unat (CalculateCipherSize this plain_len is_metadata) = (unat plain_len + 32) mod 2 ^ 32"
    unfolding e by (simp add: unat_word_ariths)
next
  assume "\<not> is_metadata \<and> algorithm_m this = AES_GCM_CTR_V1"
  then have e: "CalculateCipherSize this plain_len is_metadata = plain_len + 20"
    by (simp add: CalculateCipherSize_def)
  then show "CalculateCipherSize this plain_len is_metadata = plain_len + 16 + 4"
    by simp
  show "unat (CalculateCipherSize this plain_len is_metadata) = (unat plain_len + 20) mod 2 ^ 32"
    unfolding e by (simp add: unat_word_ariths)
next
  assume "\<not> is_metadata \<and> algorithm_m this \<noteq> AES_GCM_V1 \<and> algorithm_m this \<noteq> AES_GCM_CTR_V1"
  then show "CalculateCipherSize this plain_len is_metadata = plain_len"
    by (simp add: CalculateCipherSize_def)
qed

theorem CalculateCipherSize_branches_witness:
  "CalculateCipherSize \<lparr>algorithm_m = AES_GCM_CTR_V1, key_m = ''k'', aad_m = ''''\<rparr> 100 True = 132
   \<and> CalculateCipherSize \<lparr>algorithm_m = AES_GCM_V1, key_m = ''k'', aad_m = ''''\<rparr> 4294967290 False = 26
   \<and> CalculateCipherSize \<lparr>algorithm_m = AES_GCM_CTR_V1, key_m = ''k'', aad_m = ''''\<rparr> 100 False = 120
   \<and> CalculateCipherSize \<lparr>algorithm_m = Encryption_unlisted, key_m = ''k'', aad_m = ''''\<rparr> 100 False
       = 100"
proof -
  have r1: "CalculateCipherSize \<lparr>algorithm_m = AES_GCM_CTR_V1, key_m = ''k'', aad_m = ''''\<rparr> 100 True = 132"
    using CalculateCipherSize_branches
          [of True "\<lparr>algorithm_m = AES_GCM_CTR_V1, key_m = ''k'', aad_m = ''''\<rparr>" 100]
    by simp
  have r2: "CalculateCipherSize \<lparr>algorithm_m = AES_GCM_V1, key_m = ''k'', aad_m = ''''\<rparr> 4294967290 False = 26"
    using CalculateCipherSize_branches
          [of False "\<lparr>algorithm_m = AES_GCM_V1, key_m = ''k'', aad_m = ''''\<rparr>" 4294967290]
    by simp
  have r3: "CalculateCipherSize \<lparr>algorithm_m = AES_GCM_CTR_V1, key_m = ''k'', aad_m = ''''\<rparr> 100 False = 120"
    using CalculateCipherSize_branches
          [of False "\<lparr>algorithm_m = AES_GCM_CTR_V1, key_m = ''k'', aad_m = ''''\<rparr>" 100]
    by simp
  have r4: "CalculateCipherSize \<lparr>algorithm_m = Encryption_unlisted, key_m = ''k'', aad_m = ''''\<rparr> 100 False = 100"
    using CalculateCipherSize_branches
          [of False "\<lparr>algorithm_m = Encryption_unlisted, key_m = ''k'', aad_m = ''''\<rparr>" 100]
    by simp
  show ?thesis using r1 r2 r3 r4 by blast
qed

section \<open>The key wipe of the destructor\<close>

lemma string_replace_whole:
  "string_replace s 0 (length s) n c = Some (replicate n c)"
  by (simp add: string_replace_def)

text \<open>
  Claim C9. The destructor of an \<open>EncryptionProperties\<close> object, as a state
  transformer: it returns (no exception leaves it), and after it the key field is a string
  of the same length as before in which every byte is zero; the other members are as they
  were.
\<close>

theorem EncryptionProperties_dtor_wipes_key:
  "EncryptionProperties_dtor this
     = Some (this\<lparr>key_m := replicate (length (key_m this)) (CHR 0x00)\<rparr>)
   \<and> length (key_m (the (EncryptionProperties_dtor this))) = length (key_m this)
   \<and> list_all (\<lambda>c. c = CHR 0x00) (key_m (the (EncryptionProperties_dtor this)))
   \<and> algorithm_m (the (EncryptionProperties_dtor this)) = algorithm_m this
   \<and> aad_m (the (EncryptionProperties_dtor this)) = aad_m this"
  by (simp add: EncryptionProperties_dtor_def string_replace_whole list_all_length)

section \<open>The 96-bit timestamp: writing and reading nanoseconds\<close>

lemma kNanosecondsPerDay_value: "kNanosecondsPerDay = 86400000000000"
  by (simp add: kNanosecondsPerDay_def kMicrosecondsPerDay_def kMillisecondsPerDay_def
      kSecondsPerDay_def)

lemma word_days_product:
  fixes d :: "32 word"
  shows "((ucast d :: 64 word) - word_of_int a) * word_of_int b
           = word_of_int ((uint d - a) * b)"
  by (simp only: ucast_eq wi_hom_sub wi_hom_mult)

lemma days_product_as_int: "((ucast (d::32 word) :: 64 word) - kJulianToUnixEpochDays) * kNanosecondsPerDay
          = word_of_int ((uint d - 2440588) * 86400000000000)"
proof -
  have j: "kJulianToUnixEpochDays = word_of_int 2440588"
    by (simp only: kJulianToUnixEpochDays_def word_of_int_numeral)
  have n: "kNanosecondsPerDay = word_of_int 86400000000000"
    by (simp only: kNanosecondsPerDay_value word_of_int_numeral)
  show ?thesis
    unfolding j n by (rule word_days_product)
qed

lemma days_difference_small: "\<bar>uint (d::32 word) - 2440588\<bar> < 2 ^ 48"
proof -
  have "uint d < 2 ^ 32" using uint_bounded [of d] by simp
  then have u: "uint d < 4294967296" by simp
  have l: "0 \<le> uint d" by simp
  have "\<bar>uint d - 2440588\<bar> < 281474976710656" using u l by linarith
  then show ?thesis by simp
qed

lemma epoch_day_from_uint: "uint (d::32 word) - 2440588 = 0 \<Longrightarrow> d = 2440588"
proof -
  assume "uint d - 2440588 = 0"
  then have "uint d = 2440588" by linarith
  then have "word_of_int (uint d) = (word_of_int 2440588 :: 32 word)" by (simp only:)
  then show "d = 2440588" by (simp only: word_of_int_uint word_of_int_numeral)
qed


lemma dvd_small_int:
  fixes x :: int
  assumes "2 ^ 48 dvd x" and "\<bar>x\<bar> < 2 ^ 48"
  shows "x = 0"
proof (rule ccontr)
  assume "x \<noteq> 0"
  then have "0 < \<bar>x\<bar>" by simp
  moreover have "2 ^ 48 dvd \<bar>x\<bar>" using assms(1) by simp
  ultimately have "2 ^ 48 \<le> \<bar>x\<bar>" by (rule zdvd_imp_le [rotated])
  with assms(2) show False by linarith
qed

lemma days_product_zero_int:
  fixes x :: int
  assumes "2 ^ 64 dvd x * 86400000000000" and "\<bar>x\<bar> < 2 ^ 48"
  shows "x = 0"
proof -
  have f: "x * 86400000000000 = 2 ^ 16 * (x * 1318359375)" by simp
  have g: "(2 :: int) ^ 64 = 2 ^ 16 * 2 ^ 48" by simp
  from assms(1) have "(2 :: int) ^ 16 * 2 ^ 48 dvd 2 ^ 16 * (x * 1318359375)"
    unfolding f g .
  then have d: "(2 :: int) ^ 48 dvd x * 1318359375"
    by (rule dvd_mult_cancel_left [THEN iffD1, THEN disjE]) simp_all
  have "odd (1318359375 :: int)" by simp
  then have "coprime (2 :: int) 1318359375"
    by (rule coprime_left_2_iff_odd [THEN iffD2])
  then have "coprime ((2 :: int) ^ 48) 1318359375"
    by (rule coprime_power_left_iff [THEN iffD2, OF disjI1])
  with d have "(2 :: int) ^ 48 dvd x"
    by (simp only: coprime_dvd_mult_left_iff)
  then show ?thesis using assms(2) by (rule dvd_small_int)
qed


lemma days_product_zero:
  fixes d :: "32 word"
  shows "((ucast d :: 64 word) - kJulianToUnixEpochDays) * kNanosecondsPerDay = 0
           \<longleftrightarrow> d = 2440588"
proof
  assume "d = 2440588"
  then show "((ucast d :: 64 word) - kJulianToUnixEpochDays) * kNanosecondsPerDay = 0"
    by (simp add: kJulianToUnixEpochDays_def)
next
  assume "((ucast d :: 64 word) - kJulianToUnixEpochDays) * kNanosecondsPerDay = 0"
  then have "(word_of_int ((uint d - 2440588) * 86400000000000) :: 64 word) = 0"
    by (simp only: days_product_as_int)
  then have "(2 :: int) ^ LENGTH(64) dvd (uint d - 2440588) * 86400000000000"
    by (simp only: word_of_int_eq_0_iff)
  then have "(2 :: int) ^ 64 dvd (uint d - 2440588) * 86400000000000"
    by (simp only: len_num1 len_bit0 mult_numeral_1_right numeral_times_numeral
        semiring_norm)
  then have "uint d - 2440588 = 0"
    using days_difference_small by (rule days_product_zero_int)
  then show "d = 2440588" by (rule epoch_day_from_uint)
qed

lemma nanoseconds_words_roundtrip:
  "push_bit 32 (ucast (ucast (drop_bit 32 v) :: 32 word)) OR ucast (ucast v :: 32 word)
     = (v :: 64 word)"
  by (rule bit_word_eqI) (auto simp add: bit_simps)

lemma Int96_Get_Set:
  "Int96GetNanoSeconds (Int96SetNanoSeconds i96 v)
     = (ucast (value_2 i96) - kJulianToUnixEpochDays) * kNanosecondsPerDay + v"
  by (simp add: Int96GetNanoSeconds_def Int96SetNanoSeconds_def nanoseconds_words_roundtrip)

text \<open>
  Claim C1, as the code has it. \<open>Int96SetNanoSeconds\<close> writes \<^verbatim>\<open>value[0]\<close> and
  \<^verbatim>\<open>value[1]\<close> only; \<^verbatim>\<open>value[2]\<close>, the Julian day that \<open>Int96GetNanoSeconds\<close>
  reads, keeps the value the object had before. So for every \<^verbatim>\<open>int64_t\<close> \<open>v\<close> and every
  object \<open>i96\<close>, reading back what was written gives \<open>v\<close> exactly when \<^verbatim>\<open>value[2]\<close>
  of the object is 2440588, the Julian day of the Unix epoch.
\<close>

theorem Int96_roundtrip_iff_epoch_day:
  "(Int96GetNanoSeconds (Int96SetNanoSeconds i96 v) = v \<longleftrightarrow> value_2 i96 = 2440588)
   \<and> value_2 (Int96SetNanoSeconds i96 v) = value_2 i96"
proof
  have "Int96GetNanoSeconds (Int96SetNanoSeconds i96 v) = v
          \<longleftrightarrow> (ucast (value_2 i96) - kJulianToUnixEpochDays) * kNanosecondsPerDay = 0"
    unfolding Int96_Get_Set by simp
  then show "Int96GetNanoSeconds (Int96SetNanoSeconds i96 v) = v \<longleftrightarrow> value_2 i96 = 2440588"
    by (simp only: days_product_zero)
  show "value_2 (Int96SetNanoSeconds i96 v) = value_2 i96"
    by (simp add: Int96SetNanoSeconds_def)
qed

theorem Int96_roundtrip_iff_epoch_day_witness:
  "Int96GetNanoSeconds
     (Int96SetNanoSeconds \<lparr>value_0 = 7, value_1 = 9, value_2 = 2440588\<rparr> (- 1)) = - 1"
  using Int96_roundtrip_iff_epoch_day [of "\<lparr>value_0 = 7, value_1 = 9, value_2 = 2440588\<rparr>" "- 1"]
  by simp

text \<open>
  The claim as it is written fails: on an object whose \<^verbatim>\<open>value[2]\<close> is 2440589 (the
  day after the epoch), writing 0 and reading it back gives the nanoseconds of one day.
\<close>

theorem Int96_roundtrip_counterexample:
  "Int96GetNanoSeconds
     (Int96SetNanoSeconds \<lparr>value_0 = 0, value_1 = 0, value_2 = 2440589\<rparr> 0) \<noteq> 0"
  by (simp add: Int96_Get_Set kJulianToUnixEpochDays_def kNanosecondsPerDay_value)

lemma Int96_roundtrip_one_day_off:
  "Int96GetNanoSeconds
     (Int96SetNanoSeconds \<lparr>value_0 = 0, value_1 = 0, value_2 = 2440589\<rparr> 0) = 86400000000000"
  by (simp add: Int96_Get_Set kJulianToUnixEpochDays_def kNanosecondsPerDay_value)

section \<open>The alignment loop: invariant\<close>

lemma nonneg_nth: "nonneg arrays \<Longrightarrow> i < length arrays \<Longrightarrow> 0 \<le> Array_length (arrays ! i)"
  by (simp add: nonneg_def list_all_length)

lemma nonneg_sum_drop: "nonneg arrays \<Longrightarrow> 0 \<le> sum_list (map Array_length (drop i arrays))"
proof -
  assume "nonneg arrays"
  then have "\<forall>x \<in> set (map Array_length (drop i arrays)). 0 \<le> x"
    by (auto simp add: nonneg_def list_all_iff dest: in_set_dropD)
  then show ?thesis by (intro sum_list_nonneg) blast
qed

lemma sum_drop_step:
  "i < length arrays \<Longrightarrow>
     sum_list (map Array_length (drop i arrays))
       = Array_length (arrays ! i) + sum_list (map Array_length (drop (Suc i) arrays))"
  by (simp flip: Cons_nth_drop_Suc)

lemma loop_inv_start:
  assumes "nonneg left_arrays" and "nonneg right_arrays"
    and "sum_list (map Array_length left_arrays) = left_length"
    and "sum_list (map Array_length right_arrays) = left_length"
  shows "loop_inv left_arrays right_arrays left_length cursor_start"
  using assms nonneg_nth [of left_arrays 0] nonneg_nth [of right_arrays 0]
  by (simp add: loop_inv_def cursor_start_def)

lemma loop_inv_in_range:
  assumes "loop_inv left_arrays right_arrays left_length c"
    and "elements_compared c < left_length"
  shows "left_chunk_idx c < length left_arrays \<and> right_chunk_idx c < length right_arrays"
proof (rule ccontr)
  assume "\<not> ?thesis"
  then consider "\<not> left_chunk_idx c < length left_arrays"
    | "\<not> right_chunk_idx c < length right_arrays" by blast
  then show False
  proof cases
    case 1
    with assms(1) have "elements_compared c = left_length"
      by (simp add: loop_inv_def)
    with assms(2) show False by simp
  next
    case 2
    with assms(1) have "elements_compared c = left_length"
      by (simp add: loop_inv_def)
    with assms(2) show False by simp
  qed
qed

lemma loop_inv_le:
  assumes "nonneg left_arrays" and "loop_inv left_arrays right_arrays left_length c"
  shows "elements_compared c \<le> left_length"
proof (cases "left_chunk_idx c < length left_arrays")
  case True
  have "0 \<le> sum_list (map Array_length (drop (Suc (left_chunk_idx c)) left_arrays))"
    using assms(1) by (rule nonneg_sum_drop)
  then show ?thesis
    using assms(2) True sum_drop_step [OF True] by (simp add: loop_inv_def)
next
  case False
  then show ?thesis using assms(2) by (simp add: loop_inv_def)
qed

lemma common_length_nonneg:
  assumes "loop_inv left_arrays right_arrays left_length c"
    and "left_chunk_idx c < length left_arrays" and "right_chunk_idx c < length right_arrays"
  shows "0 \<le> common_length left_arrays right_arrays c"
  using assms by (simp add: loop_inv_def common_length_def)

lemma common_length_le:
  "left_start_idx c + common_length left_arrays right_arrays c
      \<le> Array_length (left_arrays ! left_chunk_idx c)
   \<and> right_start_idx c + common_length left_arrays right_arrays c
      \<le> Array_length (right_arrays ! right_chunk_idx c)"
  by (auto simp add: common_length_def min_def)

lemma advance_moves_a_chunk:
  "left_chunk_idx (advance left_arrays right_arrays c) = left_chunk_idx c + 1
     \<and> right_chunk_idx (advance left_arrays right_arrays c) \<ge> right_chunk_idx c
   \<or> right_chunk_idx (advance left_arrays right_arrays c) = right_chunk_idx c + 1
     \<and> left_chunk_idx (advance left_arrays right_arrays c) \<ge> left_chunk_idx c"
  by (auto simp add: advance_def common_length_def Let_def min_def)

lemma advance_elements:
  "elements_compared (advance left_arrays right_arrays c)
     = elements_compared c + common_length left_arrays right_arrays c"
  by (simp add: advance_def Let_def)

lemma advance_remaining_chunks:
  assumes "left_chunk_idx c < length left_arrays" and "right_chunk_idx c < length right_arrays"
  shows "remaining_chunks left_arrays right_arrays (advance left_arrays right_arrays c)
           < remaining_chunks left_arrays right_arrays c"
  using assms advance_moves_a_chunk [of left_arrays right_arrays c]
  by (auto simp add: remaining_chunks_def)

lemma loop_inv_advance:
  assumes n: "nonneg left_arrays" "nonneg right_arrays"
    and inv: "loop_inv left_arrays right_arrays left_length c"
    and l: "left_chunk_idx c < length left_arrays"
    and r: "right_chunk_idx c < length right_arrays"
  shows "loop_inv left_arrays right_arrays left_length (advance left_arrays right_arrays c)"
proof -
  let ?n = "common_length left_arrays right_arrays c"
  have n0: "0 \<le> ?n" using inv l r by (rule common_length_nonneg)
  have le: "left_start_idx c + ?n \<le> Array_length (left_arrays ! left_chunk_idx c)"
    "right_start_idx c + ?n \<le> Array_length (right_arrays ! right_chunk_idx c)"
    using common_length_le [of c left_arrays right_arrays] by simp_all
  have sl: "sum_list (map Array_length (drop (left_chunk_idx c) left_arrays))
       = Array_length (left_arrays ! left_chunk_idx c)
         + sum_list (map Array_length (drop (Suc (left_chunk_idx c)) left_arrays))"
    using l by (rule sum_drop_step)
  have sr: "sum_list (map Array_length (drop (right_chunk_idx c) right_arrays))
       = Array_length (right_arrays ! right_chunk_idx c)
         + sum_list (map Array_length (drop (Suc (right_chunk_idx c)) right_arrays))"
    using r by (rule sum_drop_step)
  have nl: "Suc (left_chunk_idx c) < length left_arrays \<Longrightarrow>
              0 \<le> Array_length (left_arrays ! Suc (left_chunk_idx c))"
    using n(1) by (rule nonneg_nth)
  have nr: "Suc (right_chunk_idx c) < length right_arrays \<Longrightarrow>
              0 \<le> Array_length (right_arrays ! Suc (right_chunk_idx c))"
    using n(2) by (rule nonneg_nth)
  show ?thesis
    using inv l r n0 le sl sr nl nr
    by (simp add: loop_inv_def advance_def Let_def)
qed

section \<open>The alignment loop: one turn, and the whole loop\<close>

declare binary_loop.simps [simp del]

lemma binary_loop_exit:
  "\<not> elements_compared c < left_length \<Longrightarrow>
     binary_loop kernel' left_arrays right_arrays left_length c ctx outputs
       = Inr (ctx, OK, outputs)"
  by (simp add: binary_loop.simps)

lemma binary_loop_out_of_bounds:
  assumes "elements_compared c < left_length"
    and "\<not> (left_chunk_idx c < length left_arrays \<and> right_chunk_idx c < length right_arrays)"
  shows "binary_loop kernel' left_arrays right_arrays left_length c ctx outputs = Inl OutOfBounds"
  by (subst binary_loop.simps) (simp only: assms if_True if_False)

lemma binary_loop_turn:
  assumes "elements_compared c < left_length"
    and "left_chunk_idx c < length left_arrays" and "right_chunk_idx c < length right_arrays"
    and "kernel' ctx (ARRAY (left_op left_arrays right_arrays c))
           (ARRAY (right_op left_arrays right_arrays c)) = (ctx', status, output)"
  shows "binary_loop kernel' left_arrays right_arrays left_length c ctx outputs
           = (if status \<noteq> OK then Inr (ctx', status, outputs)
              else binary_loop kernel' left_arrays right_arrays left_length
                     (advance left_arrays right_arrays c) ctx' (outputs @ [output]))"
  using assms
  by (subst binary_loop.simps) (simp add: left_op_def right_op_def Let_def)

lemma binary_loop_returns:
  assumes "nonneg left_arrays" and "nonneg right_arrays"
    and "loop_inv left_arrays right_arrays left_length c"
  shows "\<exists>res. binary_loop kernel' left_arrays right_arrays left_length c ctx outputs = Inr res"
  using assms(3)
proof (induction "remaining_chunks left_arrays right_arrays c" arbitrary: c ctx outputs
    rule: less_induct)
  case less
  show ?case
  proof (cases "elements_compared c < left_length")
    case False
    then show ?thesis by (simp add: binary_loop_exit)
  next
    case True
    with less.prems have range: "left_chunk_idx c < length left_arrays"
      "right_chunk_idx c < length right_arrays"
      using loop_inv_in_range by blast+
    obtain ctx' status out where k: "kernel' ctx (ARRAY (left_op left_arrays right_arrays c))
           (ARRAY (right_op left_arrays right_arrays c)) = (ctx', status, out)"
      by (metis prod_cases3)
    have inv': "loop_inv left_arrays right_arrays left_length (advance left_arrays right_arrays c)"
      using assms(1,2) less.prems range by (rule loop_inv_advance)
    have "remaining_chunks left_arrays right_arrays (advance left_arrays right_arrays c)
           < remaining_chunks left_arrays right_arrays c"
      using range by (rule advance_remaining_chunks)
    from less.hyps [OF this inv']
    show ?thesis
      by (simp add: binary_loop_turn [where kernel' = kernel' and ctx = ctx, OF True range k])
  qed
qed

lemma binary_loop_status:
  assumes "binary_loop kernel' left_arrays right_arrays left_length c ctx outputs
             = Inr (ctx', status, outputs')"
  shows "status = OK \<or> (\<exists>ctx0 l r. fst (snd (kernel' ctx0 l r)) = status)"
  using assms
proof (induction "remaining_chunks left_arrays right_arrays c" arbitrary: c ctx outputs
    rule: less_induct)
  case less
  show ?case
  proof (cases "elements_compared c < left_length")
    case False
    with less.prems show ?thesis by (simp add: binary_loop_exit)
  next
    case True
    show ?thesis
    proof (cases "left_chunk_idx c < length left_arrays \<and> right_chunk_idx c < length right_arrays")
      case False
      with True less.prems show ?thesis by (simp add: binary_loop_out_of_bounds)
    next
      case True
      then have range: "left_chunk_idx c < length left_arrays"
        "right_chunk_idx c < length right_arrays" by simp_all
      obtain ctx1 status1 output1
        where k: "kernel' ctx (ARRAY (left_op left_arrays right_arrays c))
           (ARRAY (right_op left_arrays right_arrays c)) = (ctx1, status1, output1)"
        by (metis prod_cases3)
      note turn = binary_loop_turn [where kernel' = kernel' and ctx = ctx,
          OF \<open>elements_compared c < left_length\<close> range k]
      show ?thesis
      proof (cases "status1 = OK")
        case False
        with less.prems have "status = status1"
          by (simp add: turn)
        with k show ?thesis by (metis fst_conv snd_conv)
      next
        case ok: True
        have d: "remaining_chunks left_arrays right_arrays (advance left_arrays right_arrays c)
               < remaining_chunks left_arrays right_arrays c"
          using range by (simp add: advance_remaining_chunks)
        from less.prems ok range
        have "binary_loop kernel' left_arrays right_arrays left_length
                (advance left_arrays right_arrays c) ctx1 (outputs @ [output1])
              = Inr (ctx', status, outputs')"
          by (simp add: turn)
        with less.hyps [OF d] show ?thesis by blast
      qed
    qed
  qed
qed

lemma calls_from_cursor:
  assumes "new_calls = map (\<lambda>k. call_at left_arrays right_arrays
                        ((advance left_arrays right_arrays ^^ k)
                           (advance left_arrays right_arrays c))) [0..<length new_calls]"
  shows "call_at left_arrays right_arrays c # new_calls
           = map (\<lambda>k. call_at left_arrays right_arrays
                        ((advance left_arrays right_arrays ^^ k) c))
               [0..<length (call_at left_arrays right_arrays c # new_calls)]"
proof -
  have "map (\<lambda>k. call_at left_arrays right_arrays ((advance left_arrays right_arrays ^^ k) c))
          [0..<Suc (length new_calls)]
        = call_at left_arrays right_arrays c
          # map (\<lambda>k. call_at left_arrays right_arrays
                        ((advance left_arrays right_arrays ^^ Suc k) c)) [0..<length new_calls]"
    by (simp only: map_upt_Suc funpow_0)
  also have "\<dots> = call_at left_arrays right_arrays c # new_calls"
    using assms by (simp only: funpow_Suc_right o_apply)
  finally show ?thesis by simp
qed

lemma traced_apply:
  "kernel' ctx l r = (ctx', status, out) \<Longrightarrow>
     traced kernel' (ctx, calls) l r = ((ctx', calls @ [(l, r)]), status, out)"
  by (simp add: traced_def)

lemma slice_within_Slice:
  "0 \<le> s \<Longrightarrow> 0 \<le> n \<Longrightarrow> s + n \<le> Array_length whole \<Longrightarrow> slice_within (Slice whole s n) whole"
  by (simp add: slice_within_def Slice_def)

lemma Slice_length [simp]: "Array_length (Slice a s n) = n"
  by (simp add: Slice_def)

lemma aligned_call_ops:
  assumes inv: "loop_inv left_arrays right_arrays left_length c"
    and l: "left_chunk_idx c < length left_arrays"
    and r: "right_chunk_idx c < length right_arrays"
  shows "aligned_call left_arrays right_arrays
           (ARRAY (left_op left_arrays right_arrays c), ARRAY (right_op left_arrays right_arrays c))"
proof -
  let ?n = "common_length left_arrays right_arrays c"
  have n0: "0 \<le> ?n" using inv l r by (rule common_length_nonneg)
  have s: "0 \<le> left_start_idx c" "0 \<le> right_start_idx c"
    using inv by (simp_all add: loop_inv_def)
  have le: "left_start_idx c + ?n \<le> Array_length (left_arrays ! left_chunk_idx c)"
    "right_start_idx c + ?n \<le> Array_length (right_arrays ! right_chunk_idx c)"
    using common_length_le [of c left_arrays right_arrays] by simp_all
  have "slice_within (left_op left_arrays right_arrays c) (left_arrays ! left_chunk_idx c)"
    unfolding left_op_def using s(1) n0 le(1) by (rule slice_within_Slice)
  then have a: "list_ex (slice_within (left_op left_arrays right_arrays c)) left_arrays"
    using l by (auto simp add: list_ex_iff)
  have "slice_within (right_op left_arrays right_arrays c) (right_arrays ! right_chunk_idx c)"
    unfolding right_op_def using s(2) n0 le(2) by (rule slice_within_Slice)
  then have b: "list_ex (slice_within (right_op left_arrays right_arrays c)) right_arrays"
    using r by (auto simp add: list_ex_iff)
  show ?thesis
    using a b by (simp add: aligned_call_def left_op_def right_op_def)
qed

lemma binary_loop_traced:
  assumes lp: "\<forall>ctx a b. Array_length a = Array_length b \<longrightarrow>
        (\<exists>ctx' out. kernel' ctx (ARRAY a) (ARRAY b) = (ctx', OK, ARRAY out)
           \<and> Array_length out = Array_length a)"
    and n: "nonneg left_arrays" "nonneg right_arrays"
    and inv: "loop_inv left_arrays right_arrays left_length c"
  shows "\<exists>ctx' new_calls segs.
     binary_loop (traced kernel') left_arrays right_arrays left_length c (ctx, calls) outputs
       = Inr ((ctx', calls @ new_calls), OK, outputs @ map ARRAY segs)
     \<and> binary_loop kernel' left_arrays right_arrays left_length c ctx outputs
       = Inr (ctx', OK, outputs @ map ARRAY segs)
     \<and> length segs = length new_calls
     \<and> new_calls = map (\<lambda>k. call_at left_arrays right_arrays
                            ((advance left_arrays right_arrays ^^ k) c)) [0..<length new_calls]
     \<and> list_all (aligned_call left_arrays right_arrays) new_calls
     \<and> sum_list (map call_length new_calls) = left_length - elements_compared c
     \<and> sum_list (map Array_length segs) = left_length - elements_compared c"
  using inv
proof (induction "remaining_chunks left_arrays right_arrays c" arbitrary: c ctx calls outputs
    rule: less_induct)
  case less
  show ?case
  proof (cases "elements_compared c < left_length")
    case False
    moreover have "elements_compared c \<le> left_length"
      using n(1) less.prems by (rule loop_inv_le)
    ultimately have e: "left_length - elements_compared c = 0" by simp
    have "binary_loop (traced kernel') left_arrays right_arrays left_length c (ctx, calls) outputs
       = Inr ((ctx, calls @ []), OK, outputs @ map ARRAY [])"
      using False by (simp add: binary_loop_exit)
    moreover have "binary_loop kernel' left_arrays right_arrays left_length c ctx outputs
       = Inr (ctx, OK, outputs @ map ARRAY [])"
      using False by (simp add: binary_loop_exit)
    ultimately show ?thesis
      using e by (intro exI [of _ ctx] exI [of _ "[]"]) simp
  next
    case True
    with less.prems have range: "left_chunk_idx c < length left_arrays"
      "right_chunk_idx c < length right_arrays"
      using loop_inv_in_range by blast+
    let ?l = "left_op left_arrays right_arrays c" and ?r = "right_op left_arrays right_arrays c"
    have "Array_length ?l = Array_length ?r"
      by (simp add: left_op_def right_op_def)
    with lp obtain ctx1 out where k: "kernel' ctx (ARRAY ?l) (ARRAY ?r) = (ctx1, OK, ARRAY out)"
      and lo: "Array_length out = Array_length ?l"
      by blast
    have kt: "traced kernel' (ctx, calls) (ARRAY ?l) (ARRAY ?r)
                = ((ctx1, calls @ [(ARRAY ?l, ARRAY ?r)]), OK, ARRAY out)"
      using k by (rule traced_apply)
    have inv': "loop_inv left_arrays right_arrays left_length (advance left_arrays right_arrays c)"
      using n less.prems range by (rule loop_inv_advance)
    have d: "remaining_chunks left_arrays right_arrays (advance left_arrays right_arrays c)
           < remaining_chunks left_arrays right_arrays c"
      using range by (rule advance_remaining_chunks)
    from less.hyps [OF d inv', of ctx1 "calls @ [(ARRAY ?l, ARRAY ?r)]" "outputs @ [ARRAY out]"]
    obtain ctx2 new_calls segs where
      t: "binary_loop (traced kernel') left_arrays right_arrays left_length
           (advance left_arrays right_arrays c) (ctx1, calls @ [(ARRAY ?l, ARRAY ?r)])
           (outputs @ [ARRAY out])
          = Inr ((ctx2, (calls @ [(ARRAY ?l, ARRAY ?r)]) @ new_calls), OK,
                 (outputs @ [ARRAY out]) @ map ARRAY segs)"
      and p: "binary_loop kernel' left_arrays right_arrays left_length
           (advance left_arrays right_arrays c) ctx1 (outputs @ [ARRAY out])
          = Inr (ctx2, OK, (outputs @ [ARRAY out]) @ map ARRAY segs)"
      and len: "length segs = length new_calls"
      and nc: "new_calls = map (\<lambda>k. call_at left_arrays right_arrays
                            ((advance left_arrays right_arrays ^^ k)
                               (advance left_arrays right_arrays c))) [0..<length new_calls]"
      and al: "list_all (aligned_call left_arrays right_arrays) new_calls"
      and sc: "sum_list (map call_length new_calls)
                 = left_length - elements_compared (advance left_arrays right_arrays c)"
      and ss: "sum_list (map Array_length segs)
                 = left_length - elements_compared (advance left_arrays right_arrays c)"
      by blast
    have t': "binary_loop (traced kernel') left_arrays right_arrays left_length c (ctx, calls) outputs
          = Inr ((ctx2, calls @ ((ARRAY ?l, ARRAY ?r) # new_calls)), OK,
                 outputs @ map ARRAY (out # segs))"
      using t
      by (simp add: binary_loop_turn [where kernel' = "traced kernel'" and ctx = "(ctx, calls)",
            OF True range kt])
    have p': "binary_loop kernel' left_arrays right_arrays left_length c ctx outputs
          = Inr (ctx2, OK, outputs @ map ARRAY (out # segs))"
      using p
      by (simp add: binary_loop_turn [where kernel' = kernel' and ctx = ctx, OF True range k])
    have a0: "aligned_call left_arrays right_arrays (ARRAY ?l, ARRAY ?r)"
      using less.prems range by (rule aligned_call_ops)
    have cl: "call_length (ARRAY ?l, ARRAY ?r) = common_length left_arrays right_arrays c"
      by (simp add: call_length_def left_op_def)
    have ol: "Array_length out = common_length left_arrays right_arrays c"
      using lo by (simp add: left_op_def)
    have nc': "(ARRAY ?l, ARRAY ?r) # new_calls
           = map (\<lambda>k. call_at left_arrays right_arrays
                        ((advance left_arrays right_arrays ^^ k) c))
               [0..<length ((ARRAY ?l, ARRAY ?r) # new_calls)]"
      using calls_from_cursor [OF nc] by (simp only: call_at_def)
    let ?calls = "(ARRAY ?l, ARRAY ?r) # new_calls" and ?segs = "out # segs"
    have c1: "length ?segs = length ?calls" using len by simp
    have c2: "list_all (aligned_call left_arrays right_arrays) ?calls"
      using al a0 by simp
    have c3: "sum_list (map call_length ?calls) = left_length - elements_compared c"
      using sc cl by (simp add: advance_elements)
    have c4: "sum_list (map Array_length ?segs) = left_length - elements_compared c"
      using ss ol by (simp add: advance_elements)
    show ?thesis
      by (intro exI [of _ ctx2] exI [of _ ?calls] exI [of _ ?segs] conjI)
         (fact t' p' c1 nc' c2 c3 c4)+
  qed
qed

section \<open>InvokeBinaryArrayKernel: segments and termination\<close>

lemma length_and_arrays_array_like:
  "array_like d \<Longrightarrow> length_and_arrays d = Some (total_length d, arrays_of d)"
  by (cases d)
     (simp_all add: array_like_def length_and_arrays_def total_length_def arrays_of_def
        ChunkedArray_length_def)

lemma length_and_arrays_not_array_like:
  "\<not> array_like d \<Longrightarrow> length_and_arrays d = None"
  by (cases d) (simp_all add: array_like_def length_and_arrays_def)

lemma lengths_nonneg_iff: "lengths_nonneg d = nonneg (arrays_of d)"
  by (simp add: lengths_nonneg_def)

lemma InvokeBinaryArrayKernel_loop:
  assumes "array_like left" and "array_like right" and "total_length left = total_length right"
  shows "InvokeBinaryArrayKernel ctx kernel' left right outputs
           = binary_loop kernel' (arrays_of left) (arrays_of right) (total_length left)
               cursor_start ctx outputs"
  using assms by (simp add: InvokeBinaryArrayKernel_def length_and_arrays_array_like)

lemma loop_inv_datums:
  assumes "lengths_nonneg left" and "lengths_nonneg right"
    and "total_length left = total_length right"
  shows "loop_inv (arrays_of left) (arrays_of right) (total_length left) cursor_start"
  using assms by (intro loop_inv_start) (simp_all add: lengths_nonneg_iff total_length_def)

lemma cursor_after_funpow:
  "cursor_after left_arrays right_arrays k
     = (advance left_arrays right_arrays ^^ k) cursor_start"
  by (induction k) simp_all

text \<open>
  Claim C5. Let \<open>left\<close> and \<open>right\<close> be array-like datums in which no chunk has a
  negative length and whose total logical lengths are equal, and let the kernel be
  length-preserving: on a pair of arrays of the same length it returns \<^verbatim>\<open>OK\<close> and an
  array of that length. Then \<open>InvokeBinaryArrayKernel\<close> returns \<^verbatim>\<open>OK\<close>, and
  \<^item> the pairs of operands the kernel is called on (recorded by \<open>traced\<close>) are, in order,
    the pairs \<open>(left_op, right_op)\<close> at the cursors of the successive turns of the loop:
    slices of \<open>common_length\<close> elements, the smaller of what remains of the two current
    chunks;
  \<^item> the two slices of each pair have the same length, and each lies inside a chunk of its
    side;
  \<^item> the lengths of the pairs sum to the common total length;
  \<^item> one output segment is appended to \<^verbatim>\<open>*outputs\<close> for each call, and the lengths of the
    segments sum to the common total length.
\<close>

theorem InvokeBinaryArrayKernel_segment_lengths:
  assumes "array_like left" and "array_like right"
    and "lengths_nonneg left" and "lengths_nonneg right"
    and "total_length left = total_length right"
    and "\<forall>ctx a b. Array_length a = Array_length b \<longrightarrow>
           (\<exists>ctx' out. kernel' ctx (ARRAY a) (ARRAY b) = (ctx', OK, ARRAY out)
              \<and> Array_length out = Array_length a)"
  shows "\<exists>ctx' calls segs.
       InvokeBinaryArrayKernel (ctx, []) (traced kernel') left right outputs
         = Inr ((ctx', calls), OK, outputs @ map ARRAY segs)
     \<and> InvokeBinaryArrayKernel ctx kernel' left right outputs
         = Inr (ctx', OK, outputs @ map ARRAY segs)
     \<and> length segs = length calls
     \<and> calls = map (\<lambda>k. call_at (arrays_of left) (arrays_of right)
                        (cursor_after (arrays_of left) (arrays_of right) k)) [0..<length calls]
     \<and> list_all (aligned_call (arrays_of left) (arrays_of right)) calls
     \<and> sum_list (map call_length calls) = total_length left
     \<and> sum_list (map Array_length segs) = total_length left"
proof -
  have inv: "loop_inv (arrays_of left) (arrays_of right) (total_length left) cursor_start"
    using assms(3,4,5) by (rule loop_inv_datums)
  have n: "nonneg (arrays_of left)" "nonneg (arrays_of right)"
    using assms(3,4) by (simp_all add: lengths_nonneg_iff)
  have e: "elements_compared cursor_start = 0" by (simp add: cursor_start_def)
  from binary_loop_traced [OF assms(6) n inv, of ctx "[]" outputs]
  show ?thesis
    unfolding InvokeBinaryArrayKernel_loop [OF assms(1,2,5)] e cursor_after_funpow by simp
qed

theorem InvokeBinaryArrayKernel_segment_lengths_witness:
  "total_length (CHUNKED_ARRAY (ChunkedArray [\<lparr>Array_length = 2, Array_offset = 0, storage = 0\<rparr>,
                                             \<lparr>Array_length = 3, Array_offset = 0, storage = 1\<rparr>]))
     = total_length (ARRAY \<lparr>Array_length = 5, Array_offset = 0, storage = 2\<rparr>)
   \<and> (\<exists>ctx' calls segs.
       InvokeBinaryArrayKernel ((), []) (traced left_operand_kernel)
         (CHUNKED_ARRAY (ChunkedArray [\<lparr>Array_length = 2, Array_offset = 0, storage = 0\<rparr>,
                                       \<lparr>Array_length = 3, Array_offset = 0, storage = 1\<rparr>]))
         (ARRAY \<lparr>Array_length = 5, Array_offset = 0, storage = 2\<rparr>) []
         = Inr ((ctx', calls), OK, map ARRAY segs)
       \<and> length segs = length calls
       \<and> sum_list (map call_length calls) = 5
       \<and> sum_list (map Array_length segs) = 5)"
proof -
  let ?l = "CHUNKED_ARRAY (ChunkedArray [\<lparr>Array_length = 2, Array_offset = 0, storage = 0\<rparr>,
                                         \<lparr>Array_length = 3, Array_offset = 0, storage = 1\<rparr>])"
  let ?r = "ARRAY \<lparr>Array_length = 5, Array_offset = 0, storage = 2\<rparr>"
  have h1: "array_like ?l" and h2: "array_like ?r"
    by (simp_all add: array_like_def)
  have h3: "lengths_nonneg ?l" and h4: "lengths_nonneg ?r"
    by (simp_all add: lengths_nonneg_def nonneg_def arrays_of_def)
  have h5: "total_length ?l = total_length ?r" and t: "total_length ?l = 5"
    by (simp_all add: total_length_def arrays_of_def)
  have h6: "\<forall>ctx a b. Array_length a = Array_length b \<longrightarrow>
           (\<exists>ctx' out. (left_operand_kernel :: unit BinaryKernel) ctx (ARRAY a) (ARRAY b)
                          = (ctx', OK, ARRAY out)
              \<and> Array_length out = Array_length a)"
    by (simp add: left_operand_kernel_def)
  from InvokeBinaryArrayKernel_segment_lengths [OF h1 h2 h3 h4 h5 h6, of "()" "[]"]
  obtain ctx' calls segs
    where "InvokeBinaryArrayKernel ((), []) (traced left_operand_kernel) ?l ?r []
             = Inr ((ctx', calls), OK, [] @ map ARRAY segs)"
      and "length segs = length calls"
      and "sum_list (map call_length calls) = total_length ?l"
      and "sum_list (map Array_length segs) = total_length ?l"
    by blast
  then have "\<exists>ctx' calls segs.
       InvokeBinaryArrayKernel ((), []) (traced left_operand_kernel) ?l ?r []
         = Inr ((ctx', calls), OK, map ARRAY segs)
       \<and> length segs = length calls
       \<and> sum_list (map call_length calls) = 5
       \<and> sum_list (map Array_length segs) = 5"
    unfolding t by auto
  with h5 show ?thesis by (rule conjI)
qed

lemma loop_inv_cursor_after:
  assumes n: "nonneg left_arrays" "nonneg right_arrays"
    and s: "loop_inv left_arrays right_arrays left_length cursor_start"
    and b: "\<forall>j<k. elements_compared (cursor_after left_arrays right_arrays j) < left_length"
  shows "loop_inv left_arrays right_arrays left_length (cursor_after left_arrays right_arrays k)"
  using b
proof (induction k)
  case 0
  then show ?case using s by simp
next
  case (Suc k)
  then have inv: "loop_inv left_arrays right_arrays left_length
                    (cursor_after left_arrays right_arrays k)"
    by simp
  from Suc.prems have "elements_compared (cursor_after left_arrays right_arrays k) < left_length"
    by simp
  with inv have "left_chunk_idx (cursor_after left_arrays right_arrays k) < length left_arrays"
    "right_chunk_idx (cursor_after left_arrays right_arrays k) < length right_arrays"
    using loop_inv_in_range by blast+
  with n inv show ?case
    by (simp add: loop_inv_advance)
qed

lemma remaining_chunks_cursor_after:
  assumes n: "nonneg left_arrays" "nonneg right_arrays"
    and s: "loop_inv left_arrays right_arrays left_length cursor_start"
    and b: "\<forall>j<k. elements_compared (cursor_after left_arrays right_arrays j) < left_length"
  shows "remaining_chunks left_arrays right_arrays (cursor_after left_arrays right_arrays k) + k
           \<le> length left_arrays + length right_arrays"
  using b
proof (induction k)
  case 0
  then show ?case by (simp add: remaining_chunks_def cursor_start_def)
next
  case (Suc k)
  then have b': "\<forall>j<k. elements_compared (cursor_after left_arrays right_arrays j) < left_length"
    by simp
  have inv: "loop_inv left_arrays right_arrays left_length
                    (cursor_after left_arrays right_arrays k)"
    using n s b' by (rule loop_inv_cursor_after)
  from Suc.prems have "elements_compared (cursor_after left_arrays right_arrays k) < left_length"
    by simp
  with inv have "left_chunk_idx (cursor_after left_arrays right_arrays k) < length left_arrays"
    "right_chunk_idx (cursor_after left_arrays right_arrays k) < length right_arrays"
    using loop_inv_in_range by blast+
  then have "remaining_chunks left_arrays right_arrays
               (advance left_arrays right_arrays (cursor_after left_arrays right_arrays k))
             < remaining_chunks left_arrays right_arrays (cursor_after left_arrays right_arrays k)"
    by (rule advance_remaining_chunks)
  with Suc.IH [OF b'] show ?case by simp
qed

lemma loop_ends_within:
  assumes n: "nonneg left_arrays" "nonneg right_arrays"
    and s: "loop_inv left_arrays right_arrays left_length cursor_start"
  shows "\<exists>k\<le>length left_arrays + length right_arrays.
           \<not> elements_compared (cursor_after left_arrays right_arrays k) < left_length"
proof (rule ccontr)
  let ?N = "length left_arrays + length right_arrays"
  assume "\<not> ?thesis"
  then have all: "\<forall>k\<le>?N. elements_compared (cursor_after left_arrays right_arrays k) < left_length"
    by blast
  then have b: "\<forall>j<?N. elements_compared (cursor_after left_arrays right_arrays j) < left_length"
    by simp
  have "remaining_chunks left_arrays right_arrays (cursor_after left_arrays right_arrays ?N) + ?N
          \<le> ?N"
    using n s b by (rule remaining_chunks_cursor_after)
  then have z: "remaining_chunks left_arrays right_arrays (cursor_after left_arrays right_arrays ?N) = 0"
    by simp
  have inv: "loop_inv left_arrays right_arrays left_length (cursor_after left_arrays right_arrays ?N)"
    using n s b by (rule loop_inv_cursor_after)
  from all have "elements_compared (cursor_after left_arrays right_arrays ?N) < left_length"
    by simp
  with inv have "left_chunk_idx (cursor_after left_arrays right_arrays ?N) < length left_arrays"
    using loop_inv_in_range by blast
  with z show False by (simp add: remaining_chunks_def)
qed

text \<open>
  Claim C10. Let \<open>left\<close> and \<open>right\<close> be array-like datums in which no chunk has a
  negative length (chunks of length zero included) and whose total logical lengths are
  equal. Then, whatever the kernel does:
  \<^item> \<open>InvokeBinaryArrayKernel\<close> returns: the loop never reads \<^verbatim>\<open>left_arrays\<close> or
    \<^verbatim>\<open>right_arrays\<close> beyond its size;
  \<^item> the loop condition fails after at most as many turns as the two sides have chunks
    together;
  \<^item> at every turn \<open>k\<close> that the loop reaches (the loop condition held at the turns up to
    \<open>k\<close>) both chunk indices are below the sizes of their vectors, \<open>common_length\<close> is
    not negative, at least one of the two chunk indices moves to the next chunk (also when
    \<open>common_length\<close> is 0), the number of remaining chunks goes down, and so does the
    lexicographic measure (remaining elements, remaining chunks).
\<close>

theorem alignment_loop_terminates:
  assumes "array_like left" and "array_like right"
    and "lengths_nonneg left" and "lengths_nonneg right"
    and "total_length left = total_length right"
  shows "(\<exists>res. InvokeBinaryArrayKernel ctx kernel' left right outputs = Inr res)
     \<and> (\<exists>k\<le>length (arrays_of left) + length (arrays_of right).
           \<not> elements_compared (cursor_after (arrays_of left) (arrays_of right) k)
               < total_length left)
     \<and> (\<forall>k. (\<forall>j\<le>k. elements_compared (cursor_after (arrays_of left) (arrays_of right) j)
                      < total_length left) \<longrightarrow>
          (let c = cursor_after (arrays_of left) (arrays_of right) k;
               c' = cursor_after (arrays_of left) (arrays_of right) (Suc k)
           in left_chunk_idx c < length (arrays_of left)
            \<and> right_chunk_idx c < length (arrays_of right)
            \<and> 0 \<le> common_length (arrays_of left) (arrays_of right) c
            \<and> elements_compared c' = elements_compared c
                 + common_length (arrays_of left) (arrays_of right) c
            \<and> (left_chunk_idx c' = left_chunk_idx c + 1
                 \<or> right_chunk_idx c' = right_chunk_idx c + 1)
            \<and> remaining_chunks (arrays_of left) (arrays_of right) c'
                 < remaining_chunks (arrays_of left) (arrays_of right) c
            \<and> (total_length left - elements_compared c' < total_length left - elements_compared c
                 \<or> total_length left - elements_compared c' = total_length left - elements_compared c
                   \<and> remaining_chunks (arrays_of left) (arrays_of right) c'
                       < remaining_chunks (arrays_of left) (arrays_of right) c)))"
proof (intro conjI allI impI)
  let ?L = "arrays_of left" and ?R = "arrays_of right" and ?t = "total_length left"
  have inv: "loop_inv ?L ?R ?t cursor_start"
    using assms(3,4,5) by (rule loop_inv_datums)
  have n: "nonneg ?L" "nonneg ?R"
    using assms(3,4) by (simp_all add: lengths_nonneg_iff)
  show "\<exists>res. InvokeBinaryArrayKernel ctx kernel' left right outputs = Inr res"
    unfolding InvokeBinaryArrayKernel_loop [OF assms(1,2,5)]
    using n inv by (rule binary_loop_returns)
  show "\<exists>k\<le>length ?L + length ?R. \<not> elements_compared (cursor_after ?L ?R k) < ?t"
    using n inv by (rule loop_ends_within)
  fix k
  assume b: "\<forall>j\<le>k. elements_compared (cursor_after ?L ?R j) < ?t"
  then have "\<forall>j<k. elements_compared (cursor_after ?L ?R j) < ?t" by simp
  with n inv have ik: "loop_inv ?L ?R ?t (cursor_after ?L ?R k)"
    by (rule loop_inv_cursor_after)
  from b have "elements_compared (cursor_after ?L ?R k) < ?t" by simp
  with ik have range: "left_chunk_idx (cursor_after ?L ?R k) < length ?L"
    "right_chunk_idx (cursor_after ?L ?R k) < length ?R"
    using loop_inv_in_range by blast+
  have n0: "0 \<le> common_length ?L ?R (cursor_after ?L ?R k)"
    using ik range by (rule common_length_nonneg)
  have d: "remaining_chunks ?L ?R (advance ?L ?R (cursor_after ?L ?R k))
             < remaining_chunks ?L ?R (cursor_after ?L ?R k)"
    using range by (rule advance_remaining_chunks)
  have m: "left_chunk_idx (advance ?L ?R (cursor_after ?L ?R k))
               = left_chunk_idx (cursor_after ?L ?R k) + 1
           \<or> right_chunk_idx (advance ?L ?R (cursor_after ?L ?R k))
               = right_chunk_idx (cursor_after ?L ?R k) + 1"
    using advance_moves_a_chunk [of ?L ?R "cursor_after ?L ?R k"] by blast
  show "let c = cursor_after ?L ?R k; c' = cursor_after ?L ?R (Suc k)
        in left_chunk_idx c < length ?L \<and> right_chunk_idx c < length ?R
           \<and> 0 \<le> common_length ?L ?R c
           \<and> elements_compared c' = elements_compared c + common_length ?L ?R c
           \<and> (left_chunk_idx c' = left_chunk_idx c + 1 \<or> right_chunk_idx c' = right_chunk_idx c + 1)
           \<and> remaining_chunks ?L ?R c' < remaining_chunks ?L ?R c
           \<and> (?t - elements_compared c' < ?t - elements_compared c
                 \<or> ?t - elements_compared c' = ?t - elements_compared c
                   \<and> remaining_chunks ?L ?R c' < remaining_chunks ?L ?R c)"
    using range n0 d m by (auto simp add: Let_def advance_elements)
qed

theorem alignment_loop_terminates_witness:
  "lengths_nonneg (CHUNKED_ARRAY (ChunkedArray [\<lparr>Array_length = 0, Array_offset = 0, storage = 0\<rparr>,
                                               \<lparr>Array_length = 2, Array_offset = 0, storage = 1\<rparr>,
                                               \<lparr>Array_length = 0, Array_offset = 0, storage = 2\<rparr>]))
   \<and> total_length (CHUNKED_ARRAY (ChunkedArray [\<lparr>Array_length = 0, Array_offset = 0, storage = 0\<rparr>,
                                               \<lparr>Array_length = 2, Array_offset = 0, storage = 1\<rparr>,
                                               \<lparr>Array_length = 0, Array_offset = 0, storage = 2\<rparr>]))
     = total_length (CHUNKED_ARRAY (ChunkedArray [\<lparr>Array_length = 1, Array_offset = 0, storage = 3\<rparr>,
                                                 \<lparr>Array_length = 0, Array_offset = 0, storage = 4\<rparr>,
                                                 \<lparr>Array_length = 1, Array_offset = 0, storage = 5\<rparr>]))
   \<and> (\<exists>res. InvokeBinaryArrayKernel () left_operand_kernel
         (CHUNKED_ARRAY (ChunkedArray [\<lparr>Array_length = 0, Array_offset = 0, storage = 0\<rparr>,
                                       \<lparr>Array_length = 2, Array_offset = 0, storage = 1\<rparr>,
                                       \<lparr>Array_length = 0, Array_offset = 0, storage = 2\<rparr>]))
         (CHUNKED_ARRAY (ChunkedArray [\<lparr>Array_length = 1, Array_offset = 0, storage = 3\<rparr>,
                                       \<lparr>Array_length = 0, Array_offset = 0, storage = 4\<rparr>,
                                       \<lparr>Array_length = 1, Array_offset = 0, storage = 5\<rparr>]))
         [] = Inr res)"
proof -
  let ?l = "CHUNKED_ARRAY (ChunkedArray [\<lparr>Array_length = 0, Array_offset = 0, storage = 0\<rparr>,
                                       \<lparr>Array_length = 2, Array_offset = 0, storage = 1\<rparr>,
                                       \<lparr>Array_length = 0, Array_offset = 0, storage = 2\<rparr>])"
  let ?r = "CHUNKED_ARRAY (ChunkedArray [\<lparr>Array_length = 1, Array_offset = 0, storage = 3\<rparr>,
                                       \<lparr>Array_length = 0, Array_offset = 0, storage = 4\<rparr>,
                                       \<lparr>Array_length = 1, Array_offset = 0, storage = 5\<rparr>])"
  have h1: "array_like ?l" and h2: "array_like ?r"
    by (simp_all add: array_like_def)
  have h3: "lengths_nonneg ?l" and h4: "lengths_nonneg ?r"
    by (simp_all add: lengths_nonneg_def nonneg_def arrays_of_def)
  have h5: "total_length ?l = total_length ?r"
    by (simp add: total_length_def arrays_of_def)
  from alignment_loop_terminates [OF h1 h2 h3 h4 h5, of "()" left_operand_kernel "[]"]
  have "\<exists>res. InvokeBinaryArrayKernel () left_operand_kernel ?l ?r [] = Inr res"
    by (rule conjunct1)
  with h3 h5 show ?thesis by blast
qed

section \<open>Rejected inputs, and wrapping the outputs\<close>

lemma InvokeBinaryArrayKernel_rejects:
  "\<not> array_like left \<Longrightarrow>
     InvokeBinaryArrayKernel ctx kernel' left right outputs
       = Inr (ctx, Invalid ''Left input Datum was not array-like'', outputs)"
  "array_like left \<Longrightarrow> \<not> array_like right \<Longrightarrow>
     InvokeBinaryArrayKernel ctx kernel' left right outputs
       = Inr (ctx, Invalid ''Right input Datum was not array-like'', outputs)"
  "array_like left \<Longrightarrow> array_like right \<Longrightarrow> total_length left \<noteq> total_length right \<Longrightarrow>
     InvokeBinaryArrayKernel ctx kernel' left right outputs
       = Inr (ctx, Invalid ''Right and left have different lengths'', outputs)"
  by (auto simp add: InvokeBinaryArrayKernel_def length_and_arrays_not_array_like
      length_and_arrays_array_like)

lemma InvokeBinaryArrayKernel_status:
  assumes "InvokeBinaryArrayKernel ctx kernel' left right outputs = Inr (ctx', status, outputs')"
    and "array_like left" and "array_like right" and "total_length left = total_length right"
  shows "status = OK \<or> (\<exists>ctx0 l r. fst (snd (kernel' ctx0 l r)) = status)"
  using assms(1) unfolding InvokeBinaryArrayKernel_loop [OF assms(2,3,4)]
  by (rule binary_loop_status)

text \<open>
  Claim C7, as the code has it. When \<open>left\<close> is not array-like, or \<open>right\<close> is not
  array-like, or the two total logical lengths differ, \<open>InvokeBinaryArrayKernel\<close> returns an
  \<^verbatim>\<open>Invalid\<close> status with the state and \<^verbatim>\<open>*outputs\<close> unchanged and without a call of
  the kernel (the record of calls of \<open>traced\<close> is unchanged): nothing is truncated to the
  shorter length. The converse needs a kernel that never returns an \<^verbatim>\<open>Invalid\<close> status
  itself, since the status of a failed kernel call is returned as it is
  (\<^verbatim>\<open>RETURN_NOT_OK\<close>): for such a kernel the dispatcher returns an \<^verbatim>\<open>Invalid\<close> status
  if and only if one of the three conditions holds. \<open>InvokeUnaryArrayKernel\<close> returns
  \<^verbatim>\<open>Invalid\<close>, with the state and \<^verbatim>\<open>*outputs\<close> unchanged, for an input that is not
  array-like.
\<close>

theorem InvokeBinaryArrayKernel_InvalidInput:
  "(\<not> array_like left \<or> \<not> array_like right \<or> total_length left \<noteq> total_length right \<longrightarrow>
      (\<exists>msg. InvokeBinaryArrayKernel ctx kernel' left right outputs
                = Inr (ctx, Invalid msg, outputs)
            \<and> InvokeBinaryArrayKernel (ctx, calls) (traced kernel') left right outputs
                = Inr ((ctx, calls), Invalid msg, outputs)))
   \<and> ((\<forall>ctx0 l r. \<not> is_Invalid (fst (snd (kernel' ctx0 l r)))) \<longrightarrow>
        (returns_Invalid (InvokeBinaryArrayKernel ctx kernel' left right outputs)
           \<longleftrightarrow> \<not> array_like left \<or> \<not> array_like right
                \<or> total_length left \<noteq> total_length right))
   \<and> (\<not> array_like val \<longrightarrow>
        InvokeUnaryArrayKernel ctx ukernel val outputs
          = (ctx, Invalid ''Input Datum was not array-like'', outputs))"
proof (intro conjI impI)
  assume c: "\<not> array_like left \<or> \<not> array_like right \<or> total_length left \<noteq> total_length right"
  then consider "\<not> array_like left" | "array_like left" "\<not> array_like right"
    | "array_like left" "array_like right" "total_length left \<noteq> total_length right"
    by blast
  then show "\<exists>msg. InvokeBinaryArrayKernel ctx kernel' left right outputs
                = Inr (ctx, Invalid msg, outputs)
            \<and> InvokeBinaryArrayKernel (ctx, calls) (traced kernel') left right outputs
                = Inr ((ctx, calls), Invalid msg, outputs)"
  proof cases
    case 1
    then show ?thesis by (simp add: InvokeBinaryArrayKernel_rejects(1))
  next
    case 2
    then show ?thesis by (simp add: InvokeBinaryArrayKernel_rejects(2))
  next
    case 3
    then show ?thesis by (simp add: InvokeBinaryArrayKernel_rejects(3))
  qed
next
  assume k: "\<forall>ctx0 l r. \<not> is_Invalid (fst (snd (kernel' ctx0 l r)))"
  show "returns_Invalid (InvokeBinaryArrayKernel ctx kernel' left right outputs)
           \<longleftrightarrow> \<not> array_like left \<or> \<not> array_like right
                \<or> total_length left \<noteq> total_length right"
  proof
    assume r: "returns_Invalid (InvokeBinaryArrayKernel ctx kernel' left right outputs)"
    show "\<not> array_like left \<or> \<not> array_like right \<or> total_length left \<noteq> total_length right"
    proof (rule ccontr)
      assume "\<not> ?thesis"
      then have v: "array_like left" "array_like right" "total_length left = total_length right"
        by simp_all
      from r obtain ctx' status outputs'
        where res: "InvokeBinaryArrayKernel ctx kernel' left right outputs
                      = Inr (ctx', status, outputs')"
          and inv: "is_Invalid status"
        by (auto simp add: returns_Invalid_def split: sum.splits)
      from InvokeBinaryArrayKernel_status [OF res v]
      have "status = OK \<or> (\<exists>ctx0 l r. fst (snd (kernel' ctx0 l r)) = status)" .
      with inv k show False by (auto simp add: is_Invalid_def)
    qed
  next
    assume "\<not> array_like left \<or> \<not> array_like right \<or> total_length left \<noteq> total_length right"
    then consider "\<not> array_like left" | "array_like left" "\<not> array_like right"
      | "array_like left" "array_like right" "total_length left \<noteq> total_length right"
      by blast
    then show "returns_Invalid (InvokeBinaryArrayKernel ctx kernel' left right outputs)"
      by cases
        (simp_all add: InvokeBinaryArrayKernel_rejects returns_Invalid_def is_Invalid_def)
  qed
next
  assume "\<not> array_like val"
  then show "InvokeUnaryArrayKernel ctx ukernel val outputs
          = (ctx, Invalid ''Input Datum was not array-like'', outputs)"
    by (cases val) (simp_all add: array_like_def InvokeUnaryArrayKernel_def)
qed

theorem InvokeBinaryArrayKernel_InvalidInput_witness:
  "(\<exists>msg. InvokeBinaryArrayKernel () left_operand_kernel
             (ARRAY \<lparr>Array_length = 5, Array_offset = 0, storage = 0\<rparr>)
             (ARRAY \<lparr>Array_length = 6, Array_offset = 0, storage = 1\<rparr>) []
           = Inr ((), Invalid msg, []))
   \<and> returns_Invalid (InvokeBinaryArrayKernel () left_operand_kernel
             (ARRAY \<lparr>Array_length = 5, Array_offset = 0, storage = 0\<rparr>)
             (ARRAY \<lparr>Array_length = 6, Array_offset = 0, storage = 1\<rparr>) [])
   \<and> InvokeUnaryArrayKernel () same_datum_kernel NONE []
       = ((), Invalid ''Input Datum was not array-like'', [])"
proof -
  let ?l = "ARRAY \<lparr>Array_length = 5, Array_offset = 0, storage = 0\<rparr>"
  let ?r = "ARRAY \<lparr>Array_length = 6, Array_offset = 0, storage = 1\<rparr>"
  have c: "\<not> array_like ?l \<or> \<not> array_like ?r \<or> total_length ?l \<noteq> total_length ?r"
    by (simp add: total_length_def arrays_of_def)
  have k: "\<forall>ctx0 l r. \<not> is_Invalid (fst (snd ((left_operand_kernel :: unit BinaryKernel) ctx0 l r)))"
    by (simp add: left_operand_kernel_def is_Invalid_def)
  have u: "\<not> array_like NONE"
    by (simp add: array_like_def)
  note t = InvokeBinaryArrayKernel_InvalidInput [where left = ?l and right = ?r and ctx = "()"
      and kernel' = left_operand_kernel and outputs = "[]" and calls = "[]" and val = NONE
      and ukernel = same_datum_kernel]
  from t c have "\<exists>msg. InvokeBinaryArrayKernel () left_operand_kernel ?l ?r []
                         = Inr ((), Invalid msg, [])"
    by blast
  moreover from t c k
  have "returns_Invalid (InvokeBinaryArrayKernel () left_operand_kernel ?l ?r [])"
    by blast
  moreover from t u
  have "InvokeUnaryArrayKernel () same_datum_kernel NONE []
          = ((), Invalid ''Input Datum was not array-like'', [])"
    by blast
  ultimately show ?thesis by blast
qed

text \<open>
  Claim C8. When the reference datum is a single array, \<open>WrapDatumsLike\<close> fails its
  consistency check (\<^verbatim>\<open>DCHECK_EQ(1, datums.size())\<close>) for every list whose size is not
  one. For a list of size one the check passes, the access \<^verbatim>\<open>datums[0]\<close> is inside the
  list, and the result is that element unwrapped: the array datum of the array the element
  holds (the accessor \<^verbatim>\<open>array()\<close> has nothing to give when the element holds no array).
\<close>

theorem WrapDatumsLike_single_array:
  "(length datums \<noteq> 1 \<longrightarrow> WrapDatumsLike (ARRAY v) datums = Inl CheckFailed)
   \<and> (length datums = 1 \<longrightarrow>
        0 < length datums
        \<and> WrapDatumsLike (ARRAY v) datums \<noteq> Inl CheckFailed
        \<and> WrapDatumsLike (ARRAY v) datums \<noteq> Inl OutOfBounds
        \<and> WrapDatumsLike (ARRAY v) datums
            = (case datums ! 0 of ARRAY a \<Rightarrow> Inr (ARRAY a) | _ \<Rightarrow> Inl BadAccess))
   \<and> WrapDatumsLike (ARRAY v) [ARRAY a] = Inr (ARRAY a)"
  by (auto simp add: WrapDatumsLike_def Datum_array_def split: Datum.splits)

theorem WrapDatumsLike_single_array_witness:
  "WrapDatumsLike (ARRAY \<lparr>Array_length = 4, Array_offset = 0, storage = 0\<rparr>) [] = Inl CheckFailed
   \<and> WrapDatumsLike (ARRAY \<lparr>Array_length = 4, Array_offset = 0, storage = 0\<rparr>)
        [ARRAY \<lparr>Array_length = 1, Array_offset = 0, storage = 0\<rparr>,
         ARRAY \<lparr>Array_length = 3, Array_offset = 1, storage = 0\<rparr>] = Inl CheckFailed
   \<and> WrapDatumsLike (ARRAY \<lparr>Array_length = 4, Array_offset = 0, storage = 0\<rparr>)
        [ARRAY \<lparr>Array_length = 4, Array_offset = 0, storage = 7\<rparr>]
       = Inr (ARRAY \<lparr>Array_length = 4, Array_offset = 0, storage = 7\<rparr>)"
proof -
  let ?v = "\<lparr>Array_length = 4, Array_offset = 0, storage = 0\<rparr>"
  have "WrapDatumsLike (ARRAY ?v) [] = Inl CheckFailed"
    using WrapDatumsLike_single_array [of "[]" ?v] by simp
  moreover have "WrapDatumsLike (ARRAY ?v)
        [ARRAY \<lparr>Array_length = 1, Array_offset = 0, storage = 0\<rparr>,
         ARRAY \<lparr>Array_length = 3, Array_offset = 1, storage = 0\<rparr>] = Inl CheckFailed"
    using WrapDatumsLike_single_array
      [of "[ARRAY \<lparr>Array_length = 1, Array_offset = 0, storage = 0\<rparr>,
            ARRAY \<lparr>Array_length = 3, Array_offset = 1, storage = 0\<rparr>]" ?v]
    by simp
  moreover have "WrapDatumsLike (ARRAY ?v) [ARRAY \<lparr>Array_length = 4, Array_offset = 0, storage = 7\<rparr>]
       = Inr (ARRAY \<lparr>Array_length = 4, Array_offset = 0, storage = 7\<rparr>)"
    using WrapDatumsLike_single_array
      [of "[ARRAY \<lparr>Array_length = 4, Array_offset = 0, storage = 7\<rparr>]" ?v]
    by simp
  ultimately show ?thesis by blast
qed

lemma datums_arrays_Inr:
  "datums_arrays datums = Inr arrays \<Longrightarrow> datums = map ARRAY arrays"
  by (induction datums arbitrary: arrays) (auto split: Datum.splits sum.splits)

lemma WrapDatumsLike_shape:
  assumes "WrapDatumsLike val datums = Inr d"
  shows "(\<exists>a. val = ARRAY a) \<and> (\<exists>a. d = ARRAY a)
       \<or> (\<exists>c. val = CHUNKED_ARRAY c) \<and> (\<exists>c. d = CHUNKED_ARRAY c)"
  using assms
  by (cases val) (auto simp add: WrapDatumsLike_def split: if_splits sum.splits)

lemma InvokeBinaryArrayKernel_datum_shape:
  assumes "InvokeBinaryArrayKernel_datum ctx kernel' left right output = Inr (ctx', OK, d)"
  shows "(\<exists>a. left = ARRAY a) \<and> (\<exists>a. d = ARRAY a)
       \<or> (\<exists>c. left = CHUNKED_ARRAY c) \<and> (\<exists>c. d = CHUNKED_ARRAY c)"
proof -
  from assms obtain result where "WrapDatumsLike left result = Inr d"
    by (auto simp add: InvokeBinaryArrayKernel_datum_def split: sum.splits if_splits)
  then show ?thesis by (rule WrapDatumsLike_shape)
qed

text \<open>
  Claim C6 says that the datum form of \<open>InvokeBinaryArrayKernel\<close> gives a single array
  whenever \<open>left\<close> is a single array, whatever the shape of \<open>right\<close> and however many
  segments are produced. The code at the input of the spec's own scenario, \<open>left\<close> a single
  array of length 4 and \<open>right\<close> chunked with lengths 1 and 3: the vector form returns
  \<^verbatim>\<open>OK\<close> with two segments, of lengths 1 and 3, and the datum form then fails
  \<^verbatim>\<open>DCHECK_EQ(1, datums.size())\<close> in \<open>WrapDatumsLike\<close>: no single array is produced.
\<close>

theorem datum_form_single_left_chunked_right:
  "InvokeBinaryArrayKernel () left_operand_kernel
     (ARRAY \<lparr>Array_length = 4, Array_offset = 0, storage = 0\<rparr>)
     (CHUNKED_ARRAY (ChunkedArray [\<lparr>Array_length = 1, Array_offset = 0, storage = 1\<rparr>,
                                   \<lparr>Array_length = 3, Array_offset = 0, storage = 2\<rparr>]))
     []
     = Inr ((), OK, [ARRAY \<lparr>Array_length = 1, Array_offset = 0, storage = 0\<rparr>,
                     ARRAY \<lparr>Array_length = 3, Array_offset = 1, storage = 0\<rparr>])
   \<and> InvokeBinaryArrayKernel_datum () left_operand_kernel
     (ARRAY \<lparr>Array_length = 4, Array_offset = 0, storage = 0\<rparr>)
     (CHUNKED_ARRAY (ChunkedArray [\<lparr>Array_length = 1, Array_offset = 0, storage = 1\<rparr>,
                                   \<lparr>Array_length = 3, Array_offset = 0, storage = 2\<rparr>]))
     NONE
     = Inl CheckFailed"
  by (simp add: InvokeBinaryArrayKernel_datum_def InvokeBinaryArrayKernel_def
      length_and_arrays_def ChunkedArray_length_def cursor_start_def left_operand_kernel_def
      common_length_def advance_def Slice_def WrapDatumsLike_def binary_loop.simps)

lemma datum_form_empty_arrays:
  "InvokeBinaryArrayKernel_datum () left_operand_kernel
     (ARRAY \<lparr>Array_length = 0, Array_offset = 0, storage = 0\<rparr>)
     (ARRAY \<lparr>Array_length = 0, Array_offset = 0, storage = 1\<rparr>)
     NONE
     = Inl CheckFailed"
  by (simp add: InvokeBinaryArrayKernel_datum_def InvokeBinaryArrayKernel_def
      length_and_arrays_def cursor_start_def WrapDatumsLike_def binary_loop.simps)

text \<open>
  The claim as it is written, with "if and only if" for every kernel, fails: on two single
  arrays of length 1 and a kernel that rejects its operands, the dispatcher returns the
  \<^verbatim>\<open>Invalid\<close> status of the kernel although both datums are array-like and of the
  same length.
\<close>

theorem InvokeBinaryArrayKernel_Invalid_counterexample:
  "\<not> (returns_Invalid
         (InvokeBinaryArrayKernel () rejecting_kernel
            (ARRAY \<lparr>Array_length = 1, Array_offset = 0, storage = 0\<rparr>)
            (ARRAY \<lparr>Array_length = 1, Array_offset = 0, storage = 1\<rparr>) [])
       \<longleftrightarrow> \<not> array_like (ARRAY \<lparr>Array_length = 1, Array_offset = 0, storage = 0\<rparr>)
            \<or> \<not> array_like (ARRAY \<lparr>Array_length = 1, Array_offset = 0, storage = 1\<rparr>)
            \<or> total_length (ARRAY \<lparr>Array_length = 1, Array_offset = 0, storage = 0\<rparr>)
                 \<noteq> total_length (ARRAY \<lparr>Array_length = 1, Array_offset = 0, storage = 1\<rparr>))"
  by (simp add: InvokeBinaryArrayKernel_def length_and_arrays_def cursor_start_def
      rejecting_kernel_def returns_Invalid_def is_Invalid_def array_like_def total_length_def
      arrays_of_def binary_loop.simps)

end
